theory Spec2Isabelle
  imports Complex_Main "HOL-Library.Multiset"
begin

section \<open>JavaScript values and strings\<close>

text \<open>
  The generator script works on JavaScript numbers, strings and arrays. Numbers that are
  printed into pixel commands (pixel identifiers, grid coordinates, colour channels after
  rounding) are integers and are modelled as \<^typ>\<open>int\<close>; numbers that take part in
  interpolation are modelled as exact reals (no IEEE rounding error, no NaN, no infinity),
  but for the last section of definitions, which repeats the arithmetic of \<open>colorBleed\<close>
  with the rounding of every operation written out.
  An argument that is \<open>undefined\<close> or \<open>null\<close> is \<open>None\<close>: the script treats the two
  alike (\<open>x !== undefined && x !== null\<close>, \<open>!x\<close>, \<open>x < 2\<close>), but for the step of the first
  \<open>colorBleed\<close> and the width of \<open>kitt2000\<close>, where it is said what \<open>None\<close> stands for.
\<close>

text \<open>A row or a column is a number (\<open>2\<close>) or a string (\<open>"-2%"\<close>).\<close>

datatype jsval = Num int | Str string

text \<open>\<open>Number.prototype.toString\<close> on an integer: decimal digits, \<open>-\<close> before a negative.\<close>

definition digit_char :: "nat \<Rightarrow> char" where
  "digit_char d = ''0123456789'' ! d"

function show_nat :: "nat \<Rightarrow> string" where
  "show_nat n = (if n < 10 then [digit_char n] else show_nat (n div 10) @ [digit_char (n mod 10)])"
  by pat_completeness auto
termination
  by (relation "measure id") auto

declare show_nat.simps [simp del]

definition show_int :: "int \<Rightarrow> string" where
  "show_int i = (if i < 0 then CHR ''-'' # show_nat (nat (- i)) else show_nat (nat i))"

fun toString :: "jsval \<Rightarrow> string" where
  "toString (Num i) = show_int i"
| "toString (Str s) = s"

text \<open>\<open>Array.prototype.join\<close> on an array of strings.\<close>

fun join :: "string \<Rightarrow> string list \<Rightarrow> string" where
  "join sep [] = []"
| "join sep [x] = x"
| "join sep (x # y # ys) = x @ sep @ join sep (y # ys)"

section \<open>The pixel command encoder\<close>

text \<open>
  \<open>getPixel(row, col, r, g, b, pixelNumber)\<close>. A channel that is falsy (\<open>undefined\<close>,
  \<open>null\<close>, \<open>0\<close>) is written as \<open>0\<close>. The array \<open>rc\<close> receives, in this order, the row
  part, the column part and the pixel number, each only when it is neither \<open>undefined\<close>
  nor \<open>null\<close>.
\<close>

definition truthy_or_0 :: "int option \<Rightarrow> int" where
  "truthy_or_0 c = (case c of None \<Rightarrow> 0 | Some v \<Rightarrow> if v \<noteq> 0 then v else 0)"

definition getPixel ::
  "jsval option \<Rightarrow> jsval option \<Rightarrow> int option \<Rightarrow> int option \<Rightarrow> int option \<Rightarrow> int option \<Rightarrow> string"
where
  "getPixel row col r g b pixelNumber =
    (let rc0 = [];
         colors = [truthy_or_0 r, truthy_or_0 g, truthy_or_0 b];
         rc1 = (case row of Some v \<Rightarrow> rc0 @ [''r:'' @ toString v] | None \<Rightarrow> rc0);
         rc2 = (case col of Some v \<Rightarrow> rc1 @ [''c:'' @ toString v] | None \<Rightarrow> rc1);
         rc3 = (case pixelNumber of Some p \<Rightarrow> rc2 @ [show_int p] | None \<Rightarrow> rc2)
     in ''P['' @ join '','' rc3 @ ''](''  @ join '','' (map show_int colors) @ '')'')"

section \<open>Interpolation primitives\<close>

definition linearInterpolate :: "real \<Rightarrow> real \<Rightarrow> real \<Rightarrow> real \<Rightarrow> real" where
  "linearInterpolate step steps val1 val2 = (val2 - val1) * (step / steps) + val1"

definition sineInterpolate :: "real \<Rightarrow> real \<Rightarrow> real \<Rightarrow> real \<Rightarrow> real" where
  "sineInterpolate step steps val1 val2 =
    (let angle = (step / steps) * pi - (pi / 2);
         sine = sin angle;
         interpolateVal = (sine + 1) / 2
     in (val2 - val1) * interpolateVal + val1)"

section \<open>The colour bleed engine\<close>

text \<open>
  A colour is the array \<open>[r, g, b]\<close>. The colours given to \<open>colorBleed\<close> are triples of
  numbers; the colours it returns are triples of integers, since every channel goes through
  \<open>Math.round\<close>. \<open>Math.round\<close> rounds to the nearest integer, a half upwards.
\<close>

type_synonym color = "real \<times> real \<times> real"
type_synonym rgb = "int \<times> int \<times> int"
type_synonym interpolation = "real \<Rightarrow> real \<Rightarrow> real \<Rightarrow> real \<Rightarrow> real"

definition js_round :: "real \<Rightarrow> int" where
  "js_round x = \<lfloor>x + 1 / 2\<rfloor>"

text \<open>The body of the function mapped over \<open>origColor\<close>: interpolate, round, clamp.\<close>

definition bleedChannel :: "interpolation \<Rightarrow> nat \<Rightarrow> real \<Rightarrow> real \<Rightarrow> real \<Rightarrow> int" where
  "bleedChannel interpolateFunc s steps origChannel destChannel =
    (let val = interpolateFunc (real s) steps origChannel destChannel;
         val1 = js_round val;
         val2 = max val1 0;
         val3 = min val2 255
     in val3)"

fun bleedColor :: "interpolation \<Rightarrow> nat \<Rightarrow> real \<Rightarrow> color \<Rightarrow> color \<Rightarrow> rgb" where
  "bleedColor f s steps (r1, g1, b1) (r2, g2, b2) =
    (bleedChannel f s steps r1 r2, bleedChannel f s steps g1 g2, bleedChannel f s steps b1 b2)"

text \<open>The loop \<open>for (var s = 0; s <= steps; s++) { ...; colors.push(color); }\<close>.\<close>

function bleedLoop :: "interpolation \<Rightarrow> color \<Rightarrow> color \<Rightarrow> real \<Rightarrow> nat \<Rightarrow> rgb list \<Rightarrow> rgb list" where
  "bleedLoop f origColor destColor steps s colors =
    (if real s \<le> steps
     then bleedLoop f origColor destColor steps (Suc s) (colors @ [bleedColor f s steps origColor destColor])
     else colors)"
  by pat_completeness auto
termination
proof (relation "measure (\<lambda>(f, origColor, destColor, steps, s, colors). nat (\<lfloor>steps\<rfloor> + 1) - s)")
  show "wf (measure (\<lambda>(f, origColor, destColor, steps, s, colors). nat (\<lfloor>steps\<rfloor> + 1) - s))"
    by simp
next
  fix f :: interpolation and origColor destColor :: color and steps :: real
    and s :: nat and colors :: "rgb list"
  assume "real s \<le> steps"
  then have "int s \<le> \<lfloor>steps\<rfloor>"
    by (simp add: le_floor_iff)
  then show "((f, origColor, destColor, steps, Suc s, colors @ [bleedColor f s steps origColor destColor]),
              (f, origColor, destColor, steps, s, colors))
             \<in> measure (\<lambda>(f, origColor, destColor, steps, s, colors). nat (\<lfloor>steps\<rfloor> + 1) - s)"
    by simp
qed

declare bleedLoop.simps [simp del]

text \<open>
  \<open>colors[step]\<close>: the element when \<open>step\<close> is an index of the array, \<open>undefined\<close>
  (\<open>None\<close>) otherwise.
\<close>

definition js_index :: "'a list \<Rightarrow> real \<Rightarrow> 'a option" where
  "js_index xs i =
    (if 0 \<le> i \<and> of_int \<lfloor>i\<rfloor> = i \<and> nat \<lfloor>i\<rfloor> < length xs then Some (xs ! nat \<lfloor>i\<rfloor>) else None)"

text \<open>
  What \<open>colorBleed\<close> returns: the whole array of colours, one colour of it, or
  \<open>undefined\<close> when \<open>step\<close> is not an index of the array.
\<close>

datatype bleed = Colors "rgb list" | OneColor rgb | NoColor

text \<open>
  \<open>colorBleed(origColor, destColor, steps, step, interpolateFunc)\<close> of the current script.
  \<open>steps\<close> is a number, not necessarily whole: the breathing generators pass
  \<open>(5 * 100 / 3) / 2\<close>.
\<close>

definition colorBleed ::
  "color \<Rightarrow> color \<Rightarrow> real option \<Rightarrow> real option \<Rightarrow> interpolation option \<Rightarrow> bleed"
where
  "colorBleed origColor destColor steps step interpolateFunc =
    (let (steps1, step1) =
           (case steps of
              None \<Rightarrow> (2, Some 1)
            | Some n \<Rightarrow> if n < 2 then (2, Some 1) else (n, step));
         f = (case interpolateFunc of None \<Rightarrow> linearInterpolate | Some g \<Rightarrow> g);
         colors = bleedLoop f origColor destColor steps1 0 []
     in case step1 of
          Some i \<Rightarrow> (case js_index colors i of Some c \<Rightarrow> OneColor c | None \<Rightarrow> NoColor)
        | None \<Rightarrow> Colors colors)"

text \<open>
  \<open>colorBleed(origColor, destColor, steps, step)\<close> of the first version of the script
  (\<open>kiianigen.js\<close>): linear only, through the per-channel increments \<open>diffSteps\<close>. It
  tests \<open>step !== undefined\<close> only, and no caller passes \<open>null\<close>: \<open>None\<close> is \<open>undefined\<close> here.
\<close>

definition diffStep :: "real \<Rightarrow> real \<Rightarrow> real \<Rightarrow> real" where
  "diffStep steps origChannel destChannel = (let cDiff = destChannel - origChannel in cDiff / steps)"

definition bleedChannel_v1 :: "nat \<Rightarrow> real \<Rightarrow> real \<Rightarrow> real \<Rightarrow> int" where
  "bleedChannel_v1 s steps origChannel destChannel =
    (let iColor = js_round (origChannel + real s * diffStep steps origChannel destChannel);
         iColor1 = max iColor 0;
         iColor2 = min iColor1 255
     in iColor2)"

fun bleedColor_v1 :: "nat \<Rightarrow> real \<Rightarrow> color \<Rightarrow> color \<Rightarrow> rgb" where
  "bleedColor_v1 s steps (r1, g1, b1) (r2, g2, b2) =
    (bleedChannel_v1 s steps r1 r2, bleedChannel_v1 s steps g1 g2, bleedChannel_v1 s steps b1 b2)"

function bleedLoop_v1 :: "color \<Rightarrow> color \<Rightarrow> real \<Rightarrow> nat \<Rightarrow> rgb list \<Rightarrow> rgb list" where
  "bleedLoop_v1 origColor destColor steps s colors =
    (if real s \<le> steps
     then bleedLoop_v1 origColor destColor steps (Suc s) (colors @ [bleedColor_v1 s steps origColor destColor])
     else colors)"
  by pat_completeness auto
termination
proof (relation "measure (\<lambda>(origColor, destColor, steps, s, colors). nat (\<lfloor>steps\<rfloor> + 1) - s)")
  show "wf (measure (\<lambda>(origColor, destColor, steps, s, colors). nat (\<lfloor>steps\<rfloor> + 1) - s))"
    by simp
next
  fix origColor destColor :: color and steps :: real and s :: nat and colors :: "rgb list"
  assume "real s \<le> steps"
  then have "int s \<le> \<lfloor>steps\<rfloor>"
    by (simp add: le_floor_iff)
  then show "((origColor, destColor, steps, Suc s, colors @ [bleedColor_v1 s steps origColor destColor]),
              (origColor, destColor, steps, s, colors))
             \<in> measure (\<lambda>(origColor, destColor, steps, s, colors). nat (\<lfloor>steps\<rfloor> + 1) - s)"
    by simp
qed

declare bleedLoop_v1.simps [simp del]

definition colorBleed_v1 :: "color \<Rightarrow> color \<Rightarrow> real option \<Rightarrow> real option \<Rightarrow> bleed" where
  "colorBleed_v1 origColor destColor steps step =
    (let (steps1, step1) =
           (case steps of
              None \<Rightarrow> (2, Some 1)
            | Some n \<Rightarrow> if n < 2 then (2, Some 1) else (n, step));
         colors = bleedLoop_v1 origColor destColor steps1 0 []
     in case step1 of
          Some i \<Rightarrow> (case js_index colors i of Some c \<Rightarrow> OneColor c | None \<Rightarrow> NoColor)
        | None \<Rightarrow> Colors colors)"

text \<open>
  The address parts in the order the specification gives them: row part, column part,
  identifier. \<open>getPixel\<close> is compared with it below.
\<close>

definition addr_parts :: "jsval option \<Rightarrow> jsval option \<Rightarrow> int option \<Rightarrow> string list" where
  "addr_parts row col pixelNumber =
     (case row of Some v \<Rightarrow> [''r:'' @ toString v] | None \<Rightarrow> []) @
     (case col of Some v \<Rightarrow> [''c:'' @ toString v] | None \<Rightarrow> []) @
     (case pixelNumber of Some p \<Rightarrow> [show_int p] | None \<Rightarrow> [])"

text \<open>
  Rounding then clamping of one channel, and of a colour: what \<open>colorBleed\<close> does to a
  channel value after interpolation.
\<close>

definition roundClamp :: "real \<Rightarrow> int" where
  "roundClamp v = min (max (js_round v) 0) 255"

fun roundClampColor :: "color \<Rightarrow> rgb" where
  "roundClampColor (r, g, b) = (roundClamp r, roundClamp g, roundClamp b)"

text \<open>A channel is an integer in [0,255].\<close>

definition channel_ok :: "int \<Rightarrow> bool" where
  "channel_ok v = (0 \<le> v \<and> v \<le> 255)"

fun rgb_ok :: "rgb \<Rightarrow> bool" where
  "rgb_ok (r, g, b) = (channel_ok r \<and> channel_ok g \<and> channel_ok b)"

fun bleed_ok :: "bleed \<Rightarrow> bool" where
  "bleed_ok (Colors cs) = list_all rgb_ok cs"
| "bleed_ok (OneColor c) = rgb_ok c"
| "bleed_ok NoColor = True"

section \<open>The multi-colour bleed\<close>

text \<open>
  \<open>multiColorBleed\<close> treats what \<open>colorBleed\<close> returns as an array: \<open>fade.slice(1)\<close>,
  \<open>colors.concat(fade)\<close>. When \<open>colorBleed\<close> returns the array of colours, its elements are
  colours; when it returns one colour (\<open>frameCountPerColor < 2\<close>), that colour is itself the
  array \<open>[r, g, b]\<close> and its elements are channel numbers; \<open>undefined.slice\<close> throws
  (\<open>None\<close>).
\<close>

datatype item = Colour rgb | Channel int

fun bleed_items :: "bleed \<Rightarrow> item list option" where
  "bleed_items (Colors cs) = Some (map Colour cs)"
| "bleed_items (OneColor (r, g, b)) = Some [Channel r, Channel g, Channel b]"
| "bleed_items NoColor = None"

fun item_ok :: "item \<Rightarrow> bool" where
  "item_ok (Colour c) = rgb_ok c"
| "item_ok (Channel v) = channel_ok v"

text \<open>
  The loop of \<open>multiColorBleed(frameCountPerColor, interpolateFunc, ...colorValues)\<close> of the
  current script, from index \<open>i\<close> with the colours collected so far.
\<close>

function multiLoop ::
  "real \<Rightarrow> interpolation option \<Rightarrow> color list \<Rightarrow> nat \<Rightarrow> item list \<Rightarrow> item list option"
where
  "multiLoop frameCountPerColor interpolateFunc colorValues i colors =
    (if i < length colorValues then
       (let cOrig = colorValues ! i;
            cDest = (if i = length colorValues - 1 then colorValues ! 0 else colorValues ! (i + 1))
        in case bleed_items (colorBleed cOrig cDest (Some frameCountPerColor) None interpolateFunc) of
             None \<Rightarrow> None
           | Some fade \<Rightarrow>
               multiLoop frameCountPerColor interpolateFunc colorValues (Suc i)
                 (colors @ (if i > 0 then drop 1 fade else fade)))
     else Some colors)"
  by pat_completeness auto
termination
  by (relation "measure (\<lambda>(frameCountPerColor, interpolateFunc, colorValues, i, colors).
        length colorValues - i)") auto

declare multiLoop.simps [simp del]

definition multiColorBleed ::
  "real \<Rightarrow> interpolation option \<Rightarrow> color list \<Rightarrow> item list option"
where
  "multiColorBleed frameCountPerColor interpolateFunc colorValues =
    (case multiLoop frameCountPerColor interpolateFunc colorValues 0 [] of
       None \<Rightarrow> None
     | Some colors \<Rightarrow> Some (butlast colors))"

text \<open>\<open>multiColorBleed(frameCountPerColor, ...colorValues)\<close> of \<open>kiianigen.js\<close>.\<close>

function multiLoop_v1 :: "real \<Rightarrow> color list \<Rightarrow> nat \<Rightarrow> item list \<Rightarrow> item list option" where
  "multiLoop_v1 frameCountPerColor colorValues i colors =
    (if i < length colorValues then
       (let cOrig = colorValues ! i;
            cDest = (if i = length colorValues - 1 then colorValues ! 0 else colorValues ! (i + 1))
        in case bleed_items (colorBleed_v1 cOrig cDest (Some frameCountPerColor) None) of
             None \<Rightarrow> None
           | Some fade \<Rightarrow>
               multiLoop_v1 frameCountPerColor colorValues (Suc i)
                 (colors @ (if i > 0 then drop 1 fade else fade)))
     else Some colors)"
  by pat_completeness auto
termination
  by (relation "measure (\<lambda>(frameCountPerColor, colorValues, i, colors).
        length colorValues - i)") auto

declare multiLoop_v1.simps [simp del]

definition multiColorBleed_v1 :: "real \<Rightarrow> color list \<Rightarrow> item list option" where
  "multiColorBleed_v1 frameCountPerColor colorValues =
    (case multiLoop_v1 frameCountPerColor colorValues 0 [] of
       None \<Rightarrow> None
     | Some colors \<Rightarrow> Some (butlast colors))"

section \<open>Animations, device geometry and random numbers\<close>

text \<open>
  An animation object \<open>{settings, type, frames}\<close>; each frame is the string of its pixel
  commands joined by commas.
\<close>

record animation =
  settings :: string
  type :: string
  frames :: "string list"

text \<open>
  What \<open>main\<close> reads from the configuration files before it calls a generator: the largest
  pixel row and column, the identifiers of the LEDs without and with a scan code, and the
  identifier of the LED of each scan code.
\<close>

record device =
  maxRow :: nat
  maxCol :: nat
  blankLeds :: "int list"
  keyedLeds :: "int list"
  ledIdByScanCode :: "string \<Rightarrow> int option"

text \<open>
  \<open>Math.random()\<close>: the values it returns, in the order of the calls. Each is in [0,1).
  A generator that draws random numbers is given the values for its own calls, the first
  at index 0.
\<close>

type_synonym random = "nat \<Rightarrow> real"

definition random_ok :: "random \<Rightarrow> bool" where
  "random_ok rnd = (\<forall>k. 0 \<le> rnd k \<and> rnd k < 1)"

text \<open>A colour given to a generator: an array of three integers.\<close>

type_synonym icolor = "int \<times> int \<times> int"

definition to_color :: "icolor \<Rightarrow> color" where
  "to_color c = (case c of (r, g, b) \<Rightarrow> (real_of_int r, real_of_int g, real_of_int b))"

definition normColor :: "real \<Rightarrow> int" where
  "normColor colorVal = max (min (js_round colorVal) 255) 0"

text \<open>\<open>getPixel(row, col, c[0], c[1], c[2], pixelNumber)\<close> for a colour array \<open>c\<close>.\<close>

definition colorPixel :: "jsval option \<Rightarrow> jsval option \<Rightarrow> icolor \<Rightarrow> int option \<Rightarrow> string" where
  "colorPixel row col c pixelNumber =
    (case c of (r, g, b) \<Rightarrow> getPixel row col (Some r) (Some g) (Some b) pixelNumber)"

section \<open>The noise generators\<close>

text \<open>
  \<open>whiteNoise(maxFrames)\<close>. Frame \<open>f\<close> makes the calls \<open>119 * f\<close>, ..., \<open>119 * f + 118\<close> of
  \<open>Math.random()\<close>, one for each pixel \<open>p = 1, ..., 119\<close>.
\<close>

definition noisePixel :: "random \<Rightarrow> nat \<Rightarrow> nat \<Rightarrow> string" where
  "noisePixel rnd f p =
    (let maxIntensity = 153;
         rIntensity = \<lfloor>rnd (119 * f + (p - 1)) * maxIntensity\<rfloor>
     in getPixel None None (Some rIntensity) (Some rIntensity) (Some rIntensity) (Some (int p)))"

definition noiseFrame :: "random \<Rightarrow> nat \<Rightarrow> string" where
  "noiseFrame rnd f = join '','' (map (noisePixel rnd f) [1 ..< 120])"

text \<open>The loop \<open>for (var f = 0; f < maxFrames; f++) { ...; frames.push(frame.join(",")); }\<close>.\<close>

function whiteNoiseLoop :: "random \<Rightarrow> real \<Rightarrow> nat \<Rightarrow> string list \<Rightarrow> string list" where
  "whiteNoiseLoop rnd maxFrames f fs =
    (if real f < maxFrames
     then whiteNoiseLoop rnd maxFrames (Suc f) (fs @ [noiseFrame rnd f])
     else fs)"
  by pat_completeness auto
termination
proof (relation "measure (\<lambda>(rnd, maxFrames, f, fs). nat \<lceil>maxFrames\<rceil> - f)")
  show "wf (measure (\<lambda>(rnd, maxFrames, f, fs). nat \<lceil>maxFrames\<rceil> - f))"
    by simp
next
  fix rnd :: random and maxFrames :: real and f :: nat and fs :: "string list"
  assume "real f < maxFrames"
  then have "int f < \<lceil>maxFrames\<rceil>"
    by (simp add: less_ceiling_iff)
  then show "((rnd, maxFrames, Suc f, fs @ [noiseFrame rnd f]), (rnd, maxFrames, f, fs))
             \<in> measure (\<lambda>(rnd, maxFrames, f, fs). nat \<lceil>maxFrames\<rceil> - f)"
    by simp
qed

declare whiteNoiseLoop.simps [simp del]

text \<open>\<open>!maxFrames\<close> holds for \<open>undefined\<close>, \<open>null\<close> and \<open>0\<close>.\<close>

definition whiteNoise :: "random \<Rightarrow> real option \<Rightarrow> animation" where
  "whiteNoise rnd maxFrames =
    (let maxFrames1 = (case maxFrames of None \<Rightarrow> 20 | Some m \<Rightarrow> if m = 0 then 20 else m)
     in \<lparr>settings = ''framedelay:1, loop, replace:all'',
         type = ''animation'',
         frames = whiteNoiseLoop rnd maxFrames1 0 []\<rparr>)"

text \<open>
  \<open>dodgyPixel(hiColor, bgColor)\<close>: one background frame over the grid, then 50 times a
  random pixel in the highlight colour and the same pixel in the background colour.
  Iteration \<open>i\<close> makes the calls \<open>2 * i\<close> and \<open>2 * i + 1\<close> of \<open>Math.random()\<close>.
\<close>

definition dodgyBackground :: "device \<Rightarrow> icolor \<Rightarrow> string list" where
  "dodgyBackground dev bgColor =
    concat (map (\<lambda>x. map (\<lambda>y. colorPixel (Some (Num (int x))) (Some (Num (int y))) bgColor None)
                          [0 ..< maxCol dev + 1])
                [0 ..< maxRow dev + 1])"

definition dodgyBlink :: "device \<Rightarrow> random \<Rightarrow> icolor \<Rightarrow> icolor \<Rightarrow> nat \<Rightarrow> string list" where
  "dodgyBlink dev rnd hiColor bgColor i =
    (let rx = js_round (rnd (2 * i) * real (maxRow dev));
         ry = js_round (rnd (2 * i + 1) * real (maxCol dev))
     in [colorPixel (Some (Num rx)) (Some (Num ry)) hiColor None,
         colorPixel (Some (Num rx)) (Some (Num ry)) bgColor None])"

definition dodgyPixel :: "device \<Rightarrow> random \<Rightarrow> icolor option \<Rightarrow> icolor option \<Rightarrow> animation" where
  "dodgyPixel dev rnd hiColor bgColor =
    (let hiColor1 = (case hiColor of None \<Rightarrow> (255, 255, 255) | Some c \<Rightarrow> c);
         bgColor1 = (case bgColor of None \<Rightarrow> (25, 25, 25) | Some c \<Rightarrow> c);
         frame = dodgyBackground dev bgColor1
     in \<lparr>settings = ''framedelay:1, loop, replace:all'',
         type = ''animation'',
         frames = join '','' frame # concat (map (dodgyBlink dev rnd hiColor1 bgColor1) [0 ..< 50])\<rparr>)"

section \<open>Sorting a frame by pixel identifier\<close>

text \<open>
  \<open>parseInt(s, 10)\<close> on a string of decimal digits, and the first capture group of
  \<open>a.match(/\[(\d+)\]/)\<close>: the digits of the leftmost \<open>[\<close> that is followed by one or more
  digits and \<open>]\<close>; \<open>None\<close> when the match is \<open>null\<close>.
\<close>

definition is_digit :: "char \<Rightarrow> bool" where
  "is_digit c = (c \<in> set ''0123456789'')"

definition digit_val :: "char \<Rightarrow> nat" where
  "digit_val c = length (takeWhile (\<lambda>d. d \<noteq> c) ''0123456789'')"

definition parse_nat :: "string \<Rightarrow> nat" where
  "parse_nat ds = foldl (\<lambda>acc c. 10 * acc + digit_val c) 0 ds"

fun match_id :: "string \<Rightarrow> string option" where
  "match_id [] = None"
| "match_id (c # cs) =
    (if c = CHR ''[''
     then (let ds = takeWhile is_digit cs;
               rest = dropWhile is_digit cs
           in if ds \<noteq> [] \<and> (case rest of [] \<Rightarrow> False | d # _ \<Rightarrow> d = CHR '']'')
              then Some ds
              else match_id cs)
     else match_id cs)"

definition pixelId :: "string \<Rightarrow> int option" where
  "pixelId a = map_option (\<lambda>ds. int (parse_nat ds)) (match_id a)"

text \<open>
  \<open>Array.prototype.sort(compareFunction)\<close>, as a stable insertion sort: an element goes
  before the first element of the sorted rest that it does not compare greater than.
\<close>

fun insert_by :: "('a \<Rightarrow> 'a \<Rightarrow> int) \<Rightarrow> 'a \<Rightarrow> 'a list \<Rightarrow> 'a list" where
  "insert_by cmp x [] = [x]"
| "insert_by cmp x (y # ys) = (if cmp x y \<le> 0 then x # y # ys else y # insert_by cmp x ys)"

definition js_sort :: "('a \<Rightarrow> 'a \<Rightarrow> int) \<Rightarrow> 'a list \<Rightarrow> 'a list" where
  "js_sort cmp xs = foldr (insert_by cmp) xs []"

text \<open>
  \<open>sortPixelFrame(frame)\<close>. The comparator throws a TypeError when one of its arguments
  has no match (\<open>null[1]\<close>); it is called on every element as soon as the frame has two.
\<close>

definition sortPixelFrame :: "string list \<Rightarrow> string list option" where
  "sortPixelFrame frame =
    (if length frame \<le> 1 then Some frame
     else if list_all (\<lambda>a. pixelId a \<noteq> None) frame
     then Some (js_sort (\<lambda>a b. the (pixelId a) - the (pixelId b)) frame)
     else None)"

section \<open>The vertical pulse with tracers\<close>

definition LEFT_BASE_LEDS :: "int list" where
  "LEFT_BASE_LEDS = [94, 95, 96, 97, 98, 99, 100, 101, 102, 103, 104, 105, 106, 107, 108, 109, 110]"

definition RIGHT_BASE_LEDS :: "int list" where
  "RIGHT_BASE_LEDS = [94, 93, 92, 91, 90, 89, 88, 119, 118, 117, 116, 115, 114, 113, 112, 111, 110]"

text \<open>\<open>color[k]\<close> for an element of a bleed sequence; a number has no elements.\<close>

fun item_channel :: "item \<Rightarrow> nat \<Rightarrow> int option" where
  "item_channel (Colour (r, g, b)) k =
    (if k = 0 then Some r else if k = 1 then Some g else if k = 2 then Some b else None)"
| "item_channel (Channel v) k = None"

text \<open>\<open>getPixel(row, col, color[0], color[1], color[2], pixelNumber)\<close>.\<close>

definition itemPixel :: "jsval option \<Rightarrow> jsval option \<Rightarrow> item \<Rightarrow> int option \<Rightarrow> string" where
  "itemPixel row col color pixelNumber =
    getPixel row col (item_channel color 0) (item_channel color 1) (item_channel color 2) pixelNumber"

text \<open>
  \<open>getPixel(null, null, normColor(color[0] * x), normColor(color[1] * x),
  normColor(color[2] * x), pixelNumber)\<close>; a missing channel gives NaN, which \<open>getPixel\<close>
  writes as 0 like a missing one.
\<close>

definition scaledPixel :: "item \<Rightarrow> real \<Rightarrow> int option \<Rightarrow> string" where
  "scaledPixel color x pixelNumber =
    getPixel None None
      (map_option (\<lambda>v. normColor (real_of_int v * x)) (item_channel color 0))
      (map_option (\<lambda>v. normColor (real_of_int v * x)) (item_channel color 1))
      (map_option (\<lambda>v. normColor (real_of_int v * x)) (item_channel color 2))
      pixelNumber"

text \<open>
  The colours after the frame count: \<open>colorValues[0]\<close> and \<open>colorValues[1]\<close> get a default
  when they are missing.
\<close>

definition defaultColors :: "icolor list \<Rightarrow> icolor list" where
  "defaultColors colorValues =
    (case colorValues of
       [] \<Rightarrow> [(0, 255, 0), (0, 0, 255)]
     | [c] \<Rightarrow> [c, (0, 0, 255)]
     | _ \<Rightarrow> colorValues)"

text \<open>The remainder \<open>a % b\<close> of two numbers: \<open>a - b * trunc(a / b)\<close>.\<close>

definition js_rem :: "real \<Rightarrow> real \<Rightarrow> real" where
  "js_rem a b = a - b * of_int (if 0 \<le> a / b then \<lfloor>a / b\<rfloor> else \<lceil>a / b\<rceil>)"

text \<open>\<open>xs[j]\<close> on an array whose elements may be \<open>null\<close>; out of range it is \<open>undefined\<close>.\<close>

definition js_nth :: "'a option list \<Rightarrow> nat \<Rightarrow> 'a option" where
  "js_nth xs j = (if j < length xs then xs ! j else None)"

text \<open>
  The synchronisation of the tracer with the pulse: the number of \<open>null\<close> slots pushed on
  both sides, and the steps per inhale afterwards. The sides have 17 LEDs.
\<close>

definition tracerSync :: "real \<Rightarrow> nat \<Rightarrow> nat \<times> real" where
  "tracerSync stepsPerInhale colorCount =
    (let actualStepsPerInhale = stepsPerInhale
     in if js_rem (real colorCount * actualStepsPerInhale) 17 > 0
        then (let currentLoops = \<lfloor>(real colorCount * actualStepsPerInhale) / 17\<rfloor>;
                  diff = (real colorCount * actualStepsPerInhale) - (17 * real_of_int currentLoops);
                  addSteps = \<lceil>diff / real_of_int currentLoops\<rceil>;
                  len = 17 + nat addSteps
              in (nat addSteps,
                  if real len * real_of_int currentLoops > actualStepsPerInhale * real colorCount
                  then real_of_int (js_round (real len * real_of_int currentLoops / real colorCount))
                  else stepsPerInhale))
        else (0, stepsPerInhale))"

text \<open>The pixel commands of the base for one frame, before they are sorted.\<close>

definition tracerCommands :: "item \<Rightarrow> int option list \<Rightarrow> int option list \<Rightarrow> string list" where
  "tracerCommands botColor ltSide rtSide =
    concat (map (\<lambda>j.
      case js_nth ltSide j of
        None \<Rightarrow> []
      | Some l \<Rightarrow>
          (let x = (if int j > int (length ltSide) - 4 then 1 else 0.05)
           in scaledPixel botColor x (Some l) #
              (if l \<noteq> 94 \<and> l \<noteq> 110 then [scaledPixel botColor x (js_nth rtSide j)] else [])))
      [0 ..< length ltSide])"

text \<open>
  The frame loop: frame \<open>i\<close> takes \<open>topColors[i]\<close> and \<open>botColors[i]\<close>, is sorted, and the two
  sides are rotated by one. Reading a channel of a missing \<open>botColors[i]\<close> throws.
\<close>

fun tracerFrames ::
  "item list \<Rightarrow> item list \<Rightarrow> int option list \<Rightarrow> int option list \<Rightarrow> string list list option"
where
  "tracerFrames [] botColors ltSide rtSide = Some []"
| "tracerFrames (topColor # topColors) [] ltSide rtSide = None"
| "tracerFrames (topColor # topColors) (botColor # botColors) ltSide rtSide =
    (case sortPixelFrame
            ([itemPixel None None topColor (Some 1), itemPixel None None topColor (Some 87)] @
             tracerCommands botColor ltSide rtSide) of
       None \<Rightarrow> None
     | Some frame \<Rightarrow>
         (case tracerFrames topColors botColors (rotate1 ltSide) (rotate1 rtSide) of
            None \<Rightarrow> None
          | Some fs \<Rightarrow> Some (frame # fs)))"

text \<open>
  \<open>verticalPulseWithTracers(stepsPerColor, ...colors)\<close>: the sorted frames before they are
  joined, and the animation.
\<close>

definition verticalPulseFrames :: "real option \<Rightarrow> icolor list \<Rightarrow> string list list option" where
  "verticalPulseFrames stepsPerColor colors =
    (let stepsPerColor1 = (case stepsPerColor of None \<Rightarrow> 32 | Some n \<Rightarrow> n);
         colorValues = defaultColors colors;
         colorCount = length colorValues;
         stepsPerInhale = (if 17 > stepsPerColor1 then 17 else stepsPerColor1);
         (addSteps, stepsPerInhale1) = tracerSync stepsPerInhale colorCount;
         ltSide = map Some LEFT_BASE_LEDS @ replicate addSteps None;
         rtSide = map Some RIGHT_BASE_LEDS @ replicate addSteps None
     in case multiColorBleed stepsPerInhale1 (Some sineInterpolate) (map to_color colorValues) of
          None \<Rightarrow> None
        | Some topColors \<Rightarrow>
            (case multiColorBleed stepsPerInhale1 (Some sineInterpolate)
                    (map to_color (rotate1 colorValues)) of
               None \<Rightarrow> None
             | Some botColors \<Rightarrow> tracerFrames topColors botColors ltSide rtSide))"

definition verticalPulseWithTracers :: "real option \<Rightarrow> icolor list \<Rightarrow> animation option" where
  "verticalPulseWithTracers stepsPerColor colors =
    (case verticalPulseFrames stepsPerColor colors of
       None \<Rightarrow> None
     | Some fs \<Rightarrow>
         Some \<lparr>settings = ''framedelay:5, framestretch, loop, replace:all, pfunc:interp'',
               type = ''animation'',
               frames = map (join '','') fs\<rparr>)"

text \<open>
  The same loop up to the call of \<open>sortPixelFrame\<close>: the commands pushed to each frame, in
  the order in which they are pushed.
\<close>

fun tracerPushed ::
  "item list \<Rightarrow> item list \<Rightarrow> int option list \<Rightarrow> int option list \<Rightarrow> string list list option"
where
  "tracerPushed [] botColors ltSide rtSide = Some []"
| "tracerPushed (topColor # topColors) [] ltSide rtSide = None"
| "tracerPushed (topColor # topColors) (botColor # botColors) ltSide rtSide =
    (case tracerPushed topColors botColors (rotate1 ltSide) (rotate1 rtSide) of
       None \<Rightarrow> None
     | Some ps \<Rightarrow>
         Some (([itemPixel None None topColor (Some 1), itemPixel None None topColor (Some 87)] @
                tracerCommands botColor ltSide rtSide) # ps))"

definition verticalPulsePushed :: "real option \<Rightarrow> icolor list \<Rightarrow> string list list option" where
  "verticalPulsePushed stepsPerColor colors =
    (let stepsPerColor1 = (case stepsPerColor of None \<Rightarrow> 32 | Some n \<Rightarrow> n);
         colorValues = defaultColors colors;
         colorCount = length colorValues;
         stepsPerInhale = (if 17 > stepsPerColor1 then 17 else stepsPerColor1);
         (addSteps, stepsPerInhale1) = tracerSync stepsPerInhale colorCount;
         ltSide = map Some LEFT_BASE_LEDS @ replicate addSteps None;
         rtSide = map Some RIGHT_BASE_LEDS @ replicate addSteps None
     in case multiColorBleed stepsPerInhale1 (Some sineInterpolate) (map to_color colorValues) of
          None \<Rightarrow> None
        | Some topColors \<Rightarrow>
            (case multiColorBleed stepsPerInhale1 (Some sineInterpolate)
                    (map to_color (rotate1 colorValues)) of
               None \<Rightarrow> None
             | Some botColors \<Rightarrow> tracerPushed topColors botColors ltSide rtSide))"

text \<open>
  The two sides of the base ring stay aligned: at each position both have an LED, with a
  non-negative identifier, or both have a \<open>null\<close> slot.
\<close>

definition side_pair :: "int option \<Rightarrow> int option \<Rightarrow> bool" where
  "side_pair l r = ((l = None \<and> r = None) \<or> (\<exists>a b. l = Some a \<and> r = Some b \<and> 0 \<le> a \<and> 0 \<le> b))"

text \<open>
  A frame whose pixel commands all carry a pixel identifier and are in nondecreasing order
  of it.
\<close>

definition frame_sorted :: "string list \<Rightarrow> bool" where
  "frame_sorted frame =
     (list_all (\<lambda>a. pixelId a \<noteq> None) frame \<and> sorted (map (\<lambda>a. the (pixelId a)) frame))"

text \<open>The pixel identifiers of the commands of a frame, in the order of the commands.\<close>

definition frameIds :: "string list \<Rightarrow> int list" where
  "frameIds frame = map (\<lambda>a. the (pixelId a)) frame"

text \<open>
  The identifiers of the commands that one position of the base ring gives to a frame, and
  those of the whole ring: the left LED, then the right LED unless the left one is 94 or
  110, where the two sides meet.
\<close>

definition pairIds :: "int option \<Rightarrow> int option \<Rightarrow> int list" where
  "pairIds l r =
    (case l of
       None \<Rightarrow> []
     | Some a \<Rightarrow> a # (if a \<noteq> 94 \<and> a \<noteq> 110 then [the r] else []))"

definition ringIds :: "int option list \<Rightarrow> int option list \<Rightarrow> int list" where
  "ringIds lt rt = concat (map (\<lambda>(l, r). pairIds l r) (zip lt rt))"

section \<open>The pulse and breath generators\<close>

text \<open>
  The frame loop shared by \<open>colorPulseGenerator\<close> and \<open>colorBreatheGenerator\<close>: for each
  colour of the bleed, the same colour at the columns \<open>-1%\<close> and \<open>101%\<close>.
\<close>

definition pulseFrame :: "item \<Rightarrow> string" where
  "pulseFrame color =
    join '','' [itemPixel None (Some (Str ''-1%'')) color None,
                itemPixel None (Some (Str ''101%'')) color None]"

text \<open>
  \<open>colorPulseGenerator(frameCountPerColor, ...colors)\<close>: \<open>multiColorBleed\<close> with the
  interpolation function \<open>undefined\<close>, that is linear.
\<close>

definition colorPulseGenerator :: "real \<Rightarrow> icolor list \<Rightarrow> animation option" where
  "colorPulseGenerator frameCountPerColor args =
    (case multiColorBleed frameCountPerColor None (map to_color args) of
       None \<Rightarrow> None
     | Some colors \<Rightarrow>
         Some \<lparr>settings = ''framedelay:3, framestretch, loop, replace:all, pfunc:interp'',
               type = ''animation'',
               frames = map pulseFrame colors\<rparr>)"

text \<open>\<open>colorBreatheGenerator(breathsPerMinute, ...colors)\<close>, with \<open>FRAME_DELAY = 3\<close>.\<close>

definition colorBreatheGenerator :: "real \<Rightarrow> icolor list \<Rightarrow> animation option" where
  "colorBreatheGenerator breathsPerMinute colorValues =
    (let secondsPerBreath = 60 / breathsPerMinute;
         stepsPerInhale = (secondsPerBreath * 100 / 3) / 2
     in case multiColorBleed stepsPerInhale (Some sineInterpolate) (map to_color colorValues) of
          None \<Rightarrow> None
        | Some colors \<Rightarrow>
            Some \<lparr>settings = ''framedelay:3, framestretch, loop, replace:all, pfunc:interp'',
                  type = ''animation'',
                  frames = map pulseFrame colors\<rparr>)"

definition macSleepBreath :: "icolor option \<Rightarrow> icolor option \<Rightarrow> animation option" where
  "macSleepBreath hiColor loColor =
    (let hiColor1 = (case hiColor of None \<Rightarrow> (255, 255, 255) | Some c \<Rightarrow> c);
         loColor1 = (case loColor of None \<Rightarrow> (1, 1, 1) | Some c \<Rightarrow> c)
     in colorBreatheGenerator 12 [hiColor1, loColor1])"

definition blueGreenBreath :: "animation option" where
  "blueGreenBreath = colorBreatheGenerator 12 [(0, 255, 0), (0, 0, 255)]"

definition redPulse :: "animation option" where
  "redPulse = colorPulseGenerator 240 [(255, 25, 0), (0, 0, 0)]"

definition linearPulse :: "icolor option \<Rightarrow> icolor option \<Rightarrow> animation option" where
  "linearPulse hiColor loColor =
    (let hiColor1 = (case hiColor of None \<Rightarrow> (255, 25, 0) | Some c \<Rightarrow> c);
         loColor1 = (case loColor of None \<Rightarrow> (0, 0, 0) | Some c \<Rightarrow> c)
     in colorPulseGenerator 240 [hiColor1, loColor1])"

definition blueYellowPulse :: "animation option" where
  "blueYellowPulse = colorPulseGenerator 240 [(0, 0, 255), (255, 255, 0)]"

definition rgbPulse :: "animation option" where
  "rgbPulse = colorPulseGenerator 120 [(255, 0, 0), (0, 255, 0), (0, 0, 255)]"

definition rgbZebraPulse :: "animation option" where
  "rgbZebraPulse =
    colorPulseGenerator 120
      [(255, 0, 0), (255, 255, 255), (0, 255, 0), (255, 255, 255), (0, 0, 255), (255, 255, 255)]"

text \<open>
  \<open>baseTopBreath(color1, color2)\<close>: the keys follow the bleed from \<open>color1\<close>, the base the
  bleed from \<open>color2\<close>. \<open>Math.round(60 / 12)\<close> is 5. Reading a channel of a missing
  \<open>botColors[i]\<close> throws.
\<close>

fun baseTopFrames :: "item list \<Rightarrow> item list \<Rightarrow> string list option" where
  "baseTopFrames [] botColors = Some []"
| "baseTopFrames (topColor # topColors) [] = None"
| "baseTopFrames (topColor # topColors) (botColor # botColors) =
    (case baseTopFrames topColors botColors of
       None \<Rightarrow> None
     | Some fs \<Rightarrow>
         Some (join '','' [itemPixel None None topColor (Some 1),
                           itemPixel None None topColor (Some 87),
                           itemPixel None None botColor (Some 88),
                           itemPixel None None botColor (Some 119)] # fs))"

definition baseTopBreath :: "icolor option \<Rightarrow> icolor option \<Rightarrow> animation option" where
  "baseTopBreath color1 color2 =
    (let color1a = (case color1 of None \<Rightarrow> (0, 255, 0) | Some c \<Rightarrow> c);
         color2a = (case color2 of None \<Rightarrow> (0, 0, 255) | Some c \<Rightarrow> c);
         secondsPerBreath = 5;
         stepsPerInhale = (secondsPerBreath * 100 / 3) / 2
     in case multiColorBleed stepsPerInhale (Some sineInterpolate) (map to_color [color1a, color2a]) of
          None \<Rightarrow> None
        | Some topColors \<Rightarrow>
            (case multiColorBleed stepsPerInhale (Some sineInterpolate)
                    (map to_color [color2a, color1a]) of
               None \<Rightarrow> None
             | Some botColors \<Rightarrow>
                 (case baseTopFrames topColors botColors of
                    None \<Rightarrow> None
                  | Some fs \<Rightarrow>
                      Some \<lparr>settings = ''framedelay:3, framestretch, loop, replace:all, pfunc:interp'',
                            type = ''animation'',
                            frames = fs\<rparr>)))"

section \<open>The base spin generators\<close>

text \<open>\<open>var popped = ids.pop(); ids.unshift(popped)\<close> on an array that is not empty.\<close>

definition rotate_right :: "'a list \<Rightarrow> 'a list" where
  "rotate_right xs = (case xs of [] \<Rightarrow> [] | _ \<Rightarrow> last xs # butlast xs)"

text \<open>
  The base of one frame: pixel \<open>ids[j]\<close> gets the colour scaled by \<open>j / ids.length\<close>.
\<close>

definition spinBase :: "item \<Rightarrow> int list \<Rightarrow> string list" where
  "spinBase botColor ids =
    map (\<lambda>j. scaledPixel botColor (real j / real (length ids)) (Some (ids ! j))) [0 ..< length ids]"

text \<open>
  \<open>blueGreenBaseTopBreathSpin()\<close>: \<open>(6.4 * 100 / 10) / 2\<close> steps per inhale; the base
  identifiers 88 to 119 are rotated before each frame.
\<close>

fun spinFrames :: "item list \<Rightarrow> item list \<Rightarrow> int list \<Rightarrow> string list option" where
  "spinFrames [] botColors baseIds = Some []"
| "spinFrames (topColor # topColors) [] baseIds = None"
| "spinFrames (topColor # topColors) (botColor # botColors) baseIds =
    (let baseIds1 = rotate_right baseIds
     in case spinFrames topColors botColors baseIds1 of
          None \<Rightarrow> None
        | Some fs \<Rightarrow>
            Some (join '','' ([itemPixel None None topColor (Some 1),
                               itemPixel None None topColor (Some 87)] @
                              spinBase botColor baseIds1) # fs))"

definition blueGreenBaseTopBreathSpin :: "animation option" where
  "blueGreenBaseTopBreathSpin =
    (let secondsPerBreath = 6.4;
         stepsPerInhale = (secondsPerBreath * 100 / 10) / 2
     in case multiColorBleed stepsPerInhale (Some sineInterpolate)
               (map to_color [(0, 255, 0), (0, 0, 255)]) of
          None \<Rightarrow> None
        | Some topColors \<Rightarrow>
            (case multiColorBleed stepsPerInhale (Some sineInterpolate)
                    (map to_color [(0, 0, 255), (0, 255, 0)]) of
               None \<Rightarrow> None
             | Some botColors \<Rightarrow>
                 (case spinFrames topColors botColors [88 .. 119] of
                    None \<Rightarrow> None
                  | Some fs \<Rightarrow>
                      Some \<lparr>settings = ''framedelay:10, framestretch, loop, replace:all, pfunc:interp'',
                            type = ''animation'',
                            frames = fs\<rparr>)))"

text \<open>
  \<open>topAndBottom2()\<close>: one frame for each \<open>i\<close> from 88 to 119, the identifiers rotated before
  each frame; the keys \<open>[0,255,0]\<close>, the base \<open>[0,0,255]\<close> scaled.
\<close>

fun topAndBottom2Frames :: "nat \<Rightarrow> int list \<Rightarrow> string list" where
  "topAndBottom2Frames 0 ids = []"
| "topAndBottom2Frames (Suc n) ids =
    (let ids1 = rotate_right ids
     in join '','' ([colorPixel None None (0, 255, 0) (Some 1),
                     colorPixel None None (0, 255, 0) (Some 87)] @
                    spinBase (Colour (0, 0, 255)) ids1)
        # topAndBottom2Frames n ids1)"

definition topAndBottom2 :: animation where
  "topAndBottom2 =
    \<lparr>settings = ''framedelay:5, loop, replace:all, pfunc:interp'',
     type = ''animation'',
     frames = topAndBottom2Frames 32 [88 .. 119]\<rparr>"

section \<open>The fixed generators\<close>

text \<open>\<open>topAndBottom()\<close>: one frame, the blank LEDs green and the keyed LEDs blue.\<close>

definition topAndBottom :: "device \<Rightarrow> animation" where
  "topAndBottom dev =
    (let frame = map (\<lambda>i. colorPixel None None (0, 255, 0) (Some i)) (blankLeds dev) @
                 map (\<lambda>i. colorPixel None None (0, 0, 255) (Some i)) (keyedLeds dev)
     in \<lparr>settings = ''framedelay:5, loop, replace:all'',
         type = ''animation'',
         frames = [join '','' frame]\<rparr>)"

text \<open>
  \<open>escapeTest()\<close>: ten frames; frame \<open>i\<close> makes the calls \<open>6 * i\<close>, ..., \<open>6 * i + 5\<close> of
  \<open>Math.random()\<close>, in the order of the arguments.
\<close>

definition escapeFrame :: "random \<Rightarrow> nat \<Rightarrow> string" where
  "escapeFrame rnd i =
    join '','' [getPixel None None (Some \<lfloor>rnd (6 * i) * 255\<rfloor>) (Some \<lfloor>rnd (6 * i + 1) * 0\<rfloor>)
                          (Some \<lfloor>rnd (6 * i + 2) * 0\<rfloor>) (Some 1),
                getPixel None None (Some \<lfloor>rnd (6 * i + 3) * 255\<rfloor>) (Some \<lfloor>rnd (6 * i + 4) * 0\<rfloor>)
                          (Some \<lfloor>rnd (6 * i + 5) * 0\<rfloor>) (Some 16)]"

definition escapeTest :: "random \<Rightarrow> animation" where
  "escapeTest rnd =
    \<lparr>settings = ''framedelay:1, loop, replace:all'',
     type = ''animation'',
     frames = map (escapeFrame rnd) [0 ..< 10]\<rparr>"

text \<open>
  \<open>bluewipe(maxFrames)\<close>: \<open>i\<close> runs from -1 to 51, then from 52 down to -1; the row of the
  highlight is \<open>(i - 1) * 2\<close> percent. In the second loop the first command is called as
  \<open>getPixel("-2%", bgColor[0], null, bgColor[1], bgColor[2])\<close>.
\<close>

definition percent :: "int \<Rightarrow> jsval" where
  "percent n = Str (show_int n @ ''%'')"

definition bluewipeUp :: "int \<Rightarrow> string" where
  "bluewipeUp i =
    join '','' [colorPixel (Some (percent (- 2))) None (93, 93, 93) None,
                colorPixel (Some (percent ((i - 1) * 2))) None (0, 26, 255) None,
                colorPixel (Some (percent 102)) None (93, 93, 93) None]"

definition bluewipeDown :: "int \<Rightarrow> string" where
  "bluewipeDown i =
    join '','' [getPixel (Some (percent (- 2))) (Some (Num 93)) None (Some 93) (Some 93) None,
                colorPixel (Some (percent ((i - 1) * 2))) None (0, 26, 255) None,
                colorPixel (Some (percent 102)) None (93, 93, 93) None]"

definition bluewipe :: animation where
  "bluewipe =
    \<lparr>settings = ''framedelay:3, framestretch, loop, replace:all, pfunc:interp'',
     type = ''animation'',
     frames = map bluewipeUp [- 1 .. 51] @ map bluewipeDown (rev [- 1 .. 52])\<rparr>"

section \<open>The chase generator\<close>

text \<open>
  \<open>xs[k]\<close> for a number \<open>k\<close> that may be negative or too large (\<open>undefined\<close> then), and
  \<open>getPixel(null, col, c[0], c[1], c[2])\<close> for an element \<open>c\<close> that may be \<open>undefined\<close>:
  reading \<open>undefined[0]\<close> throws a TypeError (\<open>None\<close>).
\<close>

definition item_at :: "item list \<Rightarrow> int \<Rightarrow> item option" where
  "item_at xs k = (if 0 \<le> k \<and> k < int (length xs) then Some (xs ! nat k) else None)"

definition columnPixel :: "jsval \<Rightarrow> item option \<Rightarrow> string option" where
  "columnPixel col c = map_option (\<lambda>color. itemPixel None (Some col) color None) c"

text \<open>
  The columns of the track: from 0 up to 102 in steps of \<open>100 / 50\<close>.
\<close>

definition kittColumns :: "int list" where
  "kittColumns = map (\<lambda>k. 2 * int k) [0 ..< 52]"

text \<open>
  \<open>createKitt2000Frame(i)\<close>. \<open>k in reversedBleedColors\<close> holds when \<open>k\<close> is an index of the
  array.
\<close>

definition createKitt2000Frame :: "icolor \<Rightarrow> item list \<Rightarrow> item list \<Rightarrow> nat \<Rightarrow> string list option" where
  "createKitt2000Frame bgColor bleedColors reversedBleedColors i =
    (let n = int (length reversedBleedColors);
         columns = kittColumns;
         head = [Some (colorPixel None (Some (Str ''-2%'')) bgColor None)];
         left =
           (if 0 \<le> n - int i \<and> n - int i < n
            then [columnPixel (Str ''0%'') (item_at reversedBleedColors (n - int i))]
            else if n - int i < 0
            then [Some (colorPixel None (Some (Str ''0%'')) bgColor None),
                  columnPixel (percent (columns ! nat (int i - n))) (item_at reversedBleedColors 0)]
            else []);
         middle = [columnPixel (percent (columns ! i)) (item_at bleedColors 0)];
         right =
           (if 0 \<le> int (length columns) - int i + 1 \<and> int (length columns) - int i + 1 < n
            then [columnPixel (Str ''100%'')
                    (item_at reversedBleedColors (int (length columns) - int i + 1))]
            else if int i + n < int (length columns)
            then [columnPixel (percent (columns ! nat (int i + n))) (item_at reversedBleedColors 0),
                  Some (colorPixel None (Some (Str ''100%'')) bgColor None)]
            else []);
         tail = [Some (colorPixel None (Some (Str ''102%'')) bgColor None)]
     in those (head @ left @ middle @ right @ tail))"

text \<open>
  \<open>kitt2000(hiColor, bgColor, width)\<close>. Only an \<open>undefined\<close> width is replaced by 5
  (\<open>None\<close>); a \<open>null\<close> width reaches \<open>colorBleed\<close> and behaves like the width 0 there.
  \<open>i\<close> runs from 0 to 51, then from 50 down to 2.
\<close>

definition kitt2000 :: "icolor option \<Rightarrow> icolor option \<Rightarrow> real option \<Rightarrow> animation option" where
  "kitt2000 hiColor bgColor width =
    (let hiColor1 = (case hiColor of None \<Rightarrow> (255, 0, 0) | Some c \<Rightarrow> c);
         bgColor1 = (case bgColor of None \<Rightarrow> (0, 0, 0) | Some c \<Rightarrow> c);
         width1 = (case width of None \<Rightarrow> 5 | Some w \<Rightarrow> w);
         bleed = width1
     in case bleed_items (colorBleed (to_color hiColor1) (to_color bgColor1) (Some bleed) None None) of
          None \<Rightarrow> None
        | Some allColors \<Rightarrow>
            (let bleedColors = drop 1 allColors;
                 reversedBleedColors = rev bleedColors
             in case those (map (createKitt2000Frame bgColor1 bleedColors reversedBleedColors)
                              ([0 ..< 52] @ rev [2 ..< 51])) of
                  None \<Rightarrow> None
                | Some fs \<Rightarrow>
                    Some \<lparr>settings = ''framedelay:2, framestretch, loop, replace:all, pfunc:interp'',
                          type = ''animation'',
                          frames = map (join '','') fs\<rparr>))"

section \<open>The key group cycler\<close>

text \<open>
  A key of a key group is a scan code (a string) or an LED identifier (a number); an entry
  of a group is one key or a range of keys.
\<close>

datatype key = Code string | Led int

datatype group_entry = One key | Range key key

definition KEY_GROUPS :: "(string \<times> group_entry list) list" where
  "KEY_GROUPS =
    [(''FUNC_KEY_GROUP'', [Range (Code ''0x01'') (Code ''0x10'')]),
     (''LEFT_GROUP'', [One (Code ''0x11''), One (Code ''0x24''), One (Code ''0x36''),
                       One (Code ''0x45''), Range (Code ''0x55'') (Code ''0x57'')]),
     (''LETTERS_GROUP'', [Range (Code ''0x12'') (Code ''0x1D''), Range (Code ''0x25'') (Code ''0x30''),
                          Range (Code ''0x37'') (Code ''0x41''), Range (Code ''0x47'') (Code ''0x50'')]),
     (''RIGHT_GROUP'', [One (Code ''0x1F''), One (Code ''0x31''), One (Code ''0x43''),
                        One (Code ''0x52''), Range (Code ''0x59'') (Code ''0x5C'')]),
     (''SPACE_GROUP'', [One (Code ''0x58'')]),
     (''NAV_GROUP'', [Range (Code ''0x21'') (Code ''0x23''), Range (Code ''0x33'') (Code ''0x35'')]),
     (''ARROW_GROUP'', [One (Code ''0x54''), Range (Code ''0x5D'') (Code ''0x5F'')]),
     (''BASE_GROUP'', [Range (Led 88) (Led 119)])]"

fun keyToId :: "device \<Rightarrow> key \<Rightarrow> int option" where
  "keyToId dev (Code c) = ledIdByScanCode dev c"
| "keyToId dev (Led n) = Some n"

text \<open>
  The pixel commands of one entry in one colour. A range whose first or last identifier is
  \<open>undefined\<close> has no iteration: every comparison with \<open>undefined\<close> is false.
\<close>

fun entryPixels :: "device \<Rightarrow> item \<Rightarrow> group_entry \<Rightarrow> string list" where
  "entryPixels dev color (Range k0 kN) =
    (case (keyToId dev k0, keyToId dev kN) of
       (Some id0, Some idN) \<Rightarrow> map (\<lambda>k. itemPixel None None color (Some k)) [id0 .. idN]
     | _ \<Rightarrow> [])"
| "entryPixels dev color (One k) = [itemPixel None None color (keyToId dev k)]"

text \<open>
  One frame: for each group in turn, element \<open>i\<close> of the bleed of the group; reading a
  channel of a missing element throws.
\<close>

definition groupPixels :: "device \<Rightarrow> nat \<Rightarrow> group_entry list \<times> item list \<Rightarrow> string list option" where
  "groupPixels dev i g =
    (case g of (keys, groupFrames) \<Rightarrow>
       map_option (\<lambda>color. concat (map (entryPixels dev color) keys)) (item_at groupFrames (int i)))"

definition cyclerFrame :: "device \<Rightarrow> (group_entry list \<times> item list) list \<Rightarrow> nat \<Rightarrow> string option" where
  "cyclerFrame dev groups i =
    map_option (\<lambda>parts. join '','' (concat parts)) (those (map (groupPixels dev i) groups))"

text \<open>
  \<open>keyGroupCycler(stepsPerColor, ...colors)\<close>: group number \<open>k\<close> bleeds through the colours
  rotated \<open>k\<close> times; the number of frames is the length of the bleed of the last group.
\<close>

definition keyGroupCycler :: "device \<Rightarrow> real option \<Rightarrow> icolor list \<Rightarrow> animation option" where
  "keyGroupCycler dev stepsPerColor colors =
    (let stepsPerColor1 = (case stepsPerColor of None \<Rightarrow> 16 | Some n \<Rightarrow> n);
         colorValues = defaultColors colors
     in case those (map (\<lambda>k. multiColorBleed stepsPerColor1 (Some sineInterpolate)
                                  (map to_color (rotate k colorValues)))
                        [0 ..< length KEY_GROUPS]) of
          None \<Rightarrow> None
        | Some keyGroupFrames \<Rightarrow>
            (let groups = zip (map snd KEY_GROUPS) keyGroupFrames;
                 frameCount = (case keyGroupFrames of [] \<Rightarrow> 0 | _ \<Rightarrow> length (last keyGroupFrames))
             in case those (map (cyclerFrame dev groups) [0 ..< frameCount]) of
                  None \<Rightarrow> None
                | Some fs \<Rightarrow>
                    Some \<lparr>settings = ''framedelay:10, framestretch, loop, replace:all'',
                          type = ''animation'',
                          frames = fs\<rparr>))"

section \<open>The registry and the \<open>all\<close> pseudo-generator\<close>

text \<open>
  The registry \<open>generators\<close>, in the order of the object literal. An entry is the name and
  the call \<open>generators[g]()\<close> without arguments: from the device geometry and the random
  values to come, the animation (\<open>None\<close> when the call throws) and the number of calls of
  \<open>Math.random()\<close> it made.
\<close>

type_synonym generator = "device \<Rightarrow> random \<Rightarrow> animation option \<times> nat"

definition generators :: "(string \<times> generator) list" where
  "generators =
    [(''dodgyPixel'', \<lambda>dev rnd. (Some (dodgyPixel dev rnd None None), 100)),
     (''kitt2000'', \<lambda>dev rnd. (kitt2000 None None None, 0)),
     (''bluewipe'', \<lambda>dev rnd. (Some bluewipe, 0)),
     (''macSleepBreath'', \<lambda>dev rnd. (macSleepBreath None None, 0)),
     (''blueGreenBreath'', \<lambda>dev rnd. (blueGreenBreath, 0)),
     (''blueGreenBaseTopBreathSpin'', \<lambda>dev rnd. (blueGreenBaseTopBreathSpin, 0)),
     (''keyGroupCycler'', \<lambda>dev rnd. (keyGroupCycler dev None [], 0)),
     (''verticalPulseWithTracers'', \<lambda>dev rnd. (verticalPulseWithTracers None [], 0)),
     (''baseTopBreath'', \<lambda>dev rnd. (baseTopBreath None None, 0)),
     (''redPulse'', \<lambda>dev rnd. (redPulse, 0)),
     (''linearPulse'', \<lambda>dev rnd. (linearPulse None None, 0)),
     (''blueYellowPulse'', \<lambda>dev rnd. (blueYellowPulse, 0)),
     (''rgbPulse'', \<lambda>dev rnd. (rgbPulse, 0)),
     (''rgbZebraPulse'', \<lambda>dev rnd. (rgbZebraPulse, 0)),
     (''whiteNoise'', \<lambda>dev rnd. (Some (whiteNoise rnd None), 119 * 20)),
     (''topAndBottom'', \<lambda>dev rnd. (Some (topAndBottom dev), 0)),
     (''topAndBottom2'', \<lambda>dev rnd. (Some topAndBottom2, 0)),
     (''escapeTest'', \<lambda>dev rnd. (Some (escapeTest rnd), 60))]"

text \<open>
  The branch \<open>generator === 'all'\<close> of \<open>main\<close>:
  \<open>for (var g in generators) { if (g.indexOf('!') === -1) { animOrig[g] = generators[g](); } }\<close>
  over a registry, from the animations \<open>animOrig\<close> of the configuration file.
\<close>

fun runAll ::
  "(string \<times> generator) list \<Rightarrow> device \<Rightarrow> random \<Rightarrow> (string \<rightharpoonup> animation) \<Rightarrow> (string \<rightharpoonup> animation) option"
where
  "runAll [] dev rnd animOrig = Some animOrig"
| "runAll ((g, gen) # gs) dev rnd animOrig =
    (if CHR ''!'' \<notin> set g
     then (case gen dev rnd of
             (None, n) \<Rightarrow> None
           | (Some a, n) \<Rightarrow> runAll gs dev (\<lambda>k. rnd (k + n)) (animOrig(g \<mapsto> a)))
     else runAll gs dev rnd animOrig)"

text \<open>
  The tokens of a settings string: the parts between the commas, without the spaces in
  front of them.
\<close>

fun split_commas :: "string \<Rightarrow> string list" where
  "split_commas [] = [] # []"
| "split_commas (c # cs) =
    (case split_commas cs of
       [] \<Rightarrow> [c] # []
     | w # ws \<Rightarrow> if c = CHR '','' then [] # w # ws else (c # w) # ws)"

definition settings_tokens :: "string \<Rightarrow> string list" where
  "settings_tokens s = map (dropWhile (\<lambda>c. c = CHR '' '')) (split_commas s)"

text \<open>
  An animation object as every generator is to return it: the type \<open>animation\<close>, the
  tokens \<open>loop\<close> and \<open>replace:all\<close> among the settings, and at least one frame.
\<close>

definition animation_header_ok :: "animation \<Rightarrow> bool" where
  "animation_header_ok a =
    (type a = ''animation''
     \<and> ''loop'' \<in> set (settings_tokens (settings a))
     \<and> ''replace:all'' \<in> set (settings_tokens (settings a)))"

definition animation_ok :: "animation \<Rightarrow> bool" where
  "animation_ok a = (animation_header_ok a \<and> frames a \<noteq> [])"

section \<open>The generators of the first version of the script\<close>

text \<open>
  \<open>kiianigen.js\<close> has ten generators. \<open>bluewipe\<close>, \<open>whiteNoise\<close> and \<open>escapeTest\<close> are as in
  the current script; \<open>dodgyPixel\<close> has its two colours fixed, \<open>topAndBottom\<close> another frame
  delay, the pulses go through the first \<open>multiColorBleed\<close>, and \<open>kitt2000\<close> draws the
  highlight between two columns in the colour \<open>colorBleed(hiColor, bgColor, 5, 4)\<close>, for
  \<open>i\<close> from -1 to 51 and from 52 down to -1.
\<close>

definition dodgyBlink_v1 :: "device \<Rightarrow> random \<Rightarrow> nat \<Rightarrow> string list" where
  "dodgyBlink_v1 dev rnd i =
    (let rx = js_round (rnd (2 * i) * real (maxRow dev));
         ry = js_round (rnd (2 * i + 1) * real (maxCol dev))
     in [getPixel (Some (Num rx)) (Some (Num ry)) (Some 255) (Some 255) (Some 255) None,
         getPixel (Some (Num rx)) (Some (Num ry)) (Some 25) (Some 25) (Some 25) None])"

definition dodgyPixel_v1 :: "device \<Rightarrow> random \<Rightarrow> animation" where
  "dodgyPixel_v1 dev rnd =
    (let frame =
           concat (map (\<lambda>x. map (\<lambda>y. getPixel (Some (Num (int x))) (Some (Num (int y)))
                                        (Some 25) (Some 25) (Some 25) None)
                                 [0 ..< maxCol dev + 1])
                       [0 ..< maxRow dev + 1])
     in \<lparr>settings = ''framedelay:1, loop, replace:all'',
         type = ''animation'',
         frames = join '','' frame # concat (map (dodgyBlink_v1 dev rnd) [0 ..< 50])\<rparr>)"

definition kittFrame_v1 :: "rgb \<Rightarrow> int \<Rightarrow> string" where
  "kittFrame_v1 lastBleedColor i =
    join '','' [colorPixel None (Some (percent (- 2))) (0, 0, 0) None,
                colorPixel None (Some (percent ((i - 1 - (5 - 1)) * 2))) lastBleedColor None,
                colorPixel None (Some (percent ((i - 1) * 2))) (255, 26, 0) None,
                colorPixel None (Some (percent ((i - 1 + (5 - 1)) * 2))) lastBleedColor None,
                colorPixel None (Some (percent 102)) (0, 0, 0) None]"

text \<open>Reading a channel of an \<open>undefined\<close> \<open>lastBleedColor\<close> throws.\<close>

definition kitt2000_v1 :: "animation option" where
  "kitt2000_v1 =
    (case colorBleed_v1 (to_color (255, 26, 0)) (to_color (0, 0, 0)) (Some 5) (Some (5 - 1)) of
       OneColor lastBleedColor \<Rightarrow>
         Some \<lparr>settings = ''framedelay:3, framestretch, loop, replace:all, pfunc:interp'',
               type = ''animation'',
               frames = map (kittFrame_v1 lastBleedColor) [- 1 .. 51] @
                        map (kittFrame_v1 lastBleedColor) (rev [- 1 .. 52])\<rparr>
     | _ \<Rightarrow> None)"

definition colorPulseGenerator_v1 :: "real \<Rightarrow> icolor list \<Rightarrow> animation option" where
  "colorPulseGenerator_v1 frameCountPerColor args =
    (case multiColorBleed_v1 frameCountPerColor (map to_color args) of
       None \<Rightarrow> None
     | Some colors \<Rightarrow>
         Some \<lparr>settings = ''framedelay:3, framestretch, loop, replace:all, pfunc:interp'',
               type = ''animation'',
               frames = map pulseFrame colors\<rparr>)"

definition topAndBottom_v1 :: "device \<Rightarrow> animation" where
  "topAndBottom_v1 dev =
    (let frame = map (\<lambda>i. colorPixel None None (0, 255, 0) (Some i)) (blankLeds dev) @
                 map (\<lambda>i. colorPixel None None (0, 0, 255) (Some i)) (keyedLeds dev)
     in \<lparr>settings = ''framedelay:1, loop, replace:all'',
         type = ''animation'',
         frames = [join '','' frame]\<rparr>)"

definition generators_v1 :: "(string \<times> generator) list" where
  "generators_v1 =
    [(''dodgyPixel'', \<lambda>dev rnd. (Some (dodgyPixel_v1 dev rnd), 100)),
     (''kitt2000'', \<lambda>dev rnd. (kitt2000_v1, 0)),
     (''bluewipe'', \<lambda>dev rnd. (Some bluewipe, 0)),
     (''redPulse'', \<lambda>dev rnd. (colorPulseGenerator_v1 240 [(255, 25, 0), (0, 0, 0)], 0)),
     (''blueYellowPulse'', \<lambda>dev rnd. (colorPulseGenerator_v1 240 [(0, 0, 255), (255, 255, 0)], 0)),
     (''rgbPulse'', \<lambda>dev rnd. (colorPulseGenerator_v1 120 [(255, 0, 0), (0, 255, 0), (0, 0, 255)], 0)),
     (''rgbZebraPulse'', \<lambda>dev rnd.
        (colorPulseGenerator_v1 120
           [(255, 0, 0), (255, 255, 255), (0, 255, 0), (255, 255, 255), (0, 0, 255), (255, 255, 255)], 0)),
     (''whiteNoise'', \<lambda>dev rnd. (Some (whiteNoise rnd None), 119 * 20)),
     (''topAndBottom'', \<lambda>dev rnd. (Some (topAndBottom_v1 dev), 0)),
     (''escapeTest'', \<lambda>dev rnd. (Some (escapeTest rnd), 60))]"

section \<open>The colour bleed in double-precision arithmetic\<close>

text \<open>
  A JavaScript number is an IEEE 754 double: each of \<open>+\<close>, \<open>-\<close>, \<open>*\<close>, \<open>/\<close> returns the
  exact result rounded to the nearest double. The sections above compute in exact reals.
  This section repeats the arithmetic of the two \<open>colorBleed\<close> functions with a rounding
  \<open>fl\<close> applied to the result of every operation, so that what the bleed owes to exact
  arithmetic and what it keeps under rounding can be told apart. The loop counter, the
  comparisons and \<open>Math.round\<close> are exact in doubles.

  \<open>round_even\<close> is the nearest integer, a tie going to the even one. \<open>round53\<close> rounds to
  the nearest number with a significand of 53 bits, a tie going to the even significand:
  the rounding of the doubles, but for their exponent range (no overflow to infinity, no
  subnormal numbers).
\<close>

definition round_even :: "real \<Rightarrow> int" where
  "round_even y =
    (let f = \<lfloor>y\<rfloor>
     in if y - of_int f < 1 / 2 then f
        else if 1 / 2 < y - of_int f then f + 1
        else if even f then f else f + 1)"

definition round53 :: "real \<Rightarrow> real" where
  "round53 x =
    (if x = 0 then 0
     else (let e = \<lfloor>log 2 \<bar>x\<bar>\<rfloor> - 52;
               ulp = 2 powr (of_int e)
           in of_int (round_even (x / ulp)) * ulp))"

text \<open>
  What the proofs use of a rounding: its relative error is at most one in \<open>2 ^ 53\<close>, and it leaves
  the whole numbers of magnitude up to \<open>2 ^ 53\<close> as they are. \<open>round53\<close> is such a rounding,
  and so is the identity (exact arithmetic).
\<close>

definition rounding :: "(real \<Rightarrow> real) \<Rightarrow> bool" where
  "rounding fl =
    ((\<forall>x. \<bar>fl x - x\<bar> \<le> \<bar>x\<bar> / 2 ^ 53) \<and>
     (\<forall>k::int. \<bar>k\<bar> \<le> 2 ^ 53 \<longrightarrow> fl (of_int k) = of_int k))"

text \<open>\<open>linearInterpolate\<close>: a subtraction, a division, a multiplication and an addition.\<close>

definition linearInterpolate_fl :: "(real \<Rightarrow> real) \<Rightarrow> real \<Rightarrow> real \<Rightarrow> real \<Rightarrow> real \<Rightarrow> real" where
  "linearInterpolate_fl fl step steps val1 val2 = fl (fl (fl (val2 - val1) * fl (step / steps)) + val1)"

text \<open>
  \<open>colorBleed\<close> of the current script: it does no arithmetic of its own, so it differs
  from the exact one by its default interpolation only.
\<close>

definition colorBleed_fl ::
  "(real \<Rightarrow> real) \<Rightarrow> color \<Rightarrow> color \<Rightarrow> real option \<Rightarrow> real option \<Rightarrow> interpolation option \<Rightarrow> bleed"
where
  "colorBleed_fl fl origColor destColor steps step interpolateFunc =
    (let (steps1, step1) =
           (case steps of
              None \<Rightarrow> (2, Some 1)
            | Some n \<Rightarrow> if n < 2 then (2, Some 1) else (n, step));
         f = (case interpolateFunc of None \<Rightarrow> linearInterpolate_fl fl | Some g \<Rightarrow> g);
         colors = bleedLoop f origColor destColor steps1 0 []
     in case step1 of
          Some i \<Rightarrow> (case js_index colors i of Some c \<Rightarrow> OneColor c | None \<Rightarrow> NoColor)
        | None \<Rightarrow> Colors colors)"

text \<open>
  \<open>colorBleed\<close> of \<open>kiianigen.js\<close>: \<open>cDiff = destColor[i] - origColor[i]\<close>,
  \<open>diffSteps[i] = cDiff / steps\<close>, \<open>origColor[i] + (s * diffSteps[i])\<close>.
\<close>

definition diffStep_fl :: "(real \<Rightarrow> real) \<Rightarrow> real \<Rightarrow> real \<Rightarrow> real \<Rightarrow> real" where
  "diffStep_fl fl steps origChannel destChannel =
    (let cDiff = fl (destChannel - origChannel) in fl (cDiff / steps))"

definition bleedChannel_v1_fl :: "(real \<Rightarrow> real) \<Rightarrow> nat \<Rightarrow> real \<Rightarrow> real \<Rightarrow> real \<Rightarrow> int" where
  "bleedChannel_v1_fl fl s steps origChannel destChannel =
    (let iColor = js_round (fl (origChannel + fl (real s * diffStep_fl fl steps origChannel destChannel)));
         iColor1 = max iColor 0;
         iColor2 = min iColor1 255
     in iColor2)"

fun bleedColor_v1_fl :: "(real \<Rightarrow> real) \<Rightarrow> nat \<Rightarrow> real \<Rightarrow> color \<Rightarrow> color \<Rightarrow> rgb" where
  "bleedColor_v1_fl fl s steps (r1, g1, b1) (r2, g2, b2) =
    (bleedChannel_v1_fl fl s steps r1 r2, bleedChannel_v1_fl fl s steps g1 g2,
     bleedChannel_v1_fl fl s steps b1 b2)"

function bleedLoop_v1_fl ::
  "(real \<Rightarrow> real) \<Rightarrow> color \<Rightarrow> color \<Rightarrow> real \<Rightarrow> nat \<Rightarrow> rgb list \<Rightarrow> rgb list"
where
  "bleedLoop_v1_fl fl origColor destColor steps s colors =
    (if real s \<le> steps
     then bleedLoop_v1_fl fl origColor destColor steps (Suc s)
            (colors @ [bleedColor_v1_fl fl s steps origColor destColor])
     else colors)"
  by pat_completeness auto
termination
proof (relation "measure (\<lambda>(fl, origColor, destColor, steps, s, colors). nat (\<lfloor>steps\<rfloor> + 1) - s)")
  show "wf (measure (\<lambda>(fl, origColor, destColor, steps, s, colors). nat (\<lfloor>steps\<rfloor> + 1) - s))"
    by simp
next
  fix fl :: "real \<Rightarrow> real" and origColor destColor :: color and steps :: real
    and s :: nat and colors :: "rgb list"
  assume "real s \<le> steps"
  then have "int s \<le> \<lfloor>steps\<rfloor>"
    by (simp add: le_floor_iff)
  then show "((fl, origColor, destColor, steps, Suc s,
               colors @ [bleedColor_v1_fl fl s steps origColor destColor]),
              (fl, origColor, destColor, steps, s, colors))
             \<in> measure (\<lambda>(fl, origColor, destColor, steps, s, colors). nat (\<lfloor>steps\<rfloor> + 1) - s)"
    by simp
qed

declare bleedLoop_v1_fl.simps [simp del]

definition colorBleed_v1_fl ::
  "(real \<Rightarrow> real) \<Rightarrow> color \<Rightarrow> color \<Rightarrow> real option \<Rightarrow> real option \<Rightarrow> bleed"
where
  "colorBleed_v1_fl fl origColor destColor steps step =
    (let (steps1, step1) =
           (case steps of
              None \<Rightarrow> (2, Some 1)
            | Some n \<Rightarrow> if n < 2 then (2, Some 1) else (n, step));
         colors = bleedLoop_v1_fl fl origColor destColor steps1 0 []
     in case step1 of
          Some i \<Rightarrow> (case js_index colors i of Some c \<Rightarrow> OneColor c | None \<Rightarrow> NoColor)
        | None \<Rightarrow> Colors colors)"

text \<open>
  A colour whose channels are whole numbers of magnitude at most \<open>2 ^ 31\<close>: every colour
  of 8-bit channels is one, and so are the colours beyond [0,255] that the clamping is for.
\<close>

fun int32_color :: "icolor \<Rightarrow> bool" where
  "int32_color (r, g, b) = (\<bar>r\<bar> \<le> 2 ^ 31 \<and> \<bar>g\<bar> \<le> 2 ^ 31 \<and> \<bar>b\<bar> \<le> 2 ^ 31)"

section \<open>Properties of the pixel command encoder\<close>

lemma show_nat_digit: "n < 10 \<Longrightarrow> show_nat n = [digit_char n]"
  by (simp add: show_nat.simps)

lemma show_nat_step: "10 \<le> n \<Longrightarrow> show_nat n = show_nat (n div 10) @ [digit_char (n mod 10)]"
  by (subst show_nat.simps) simp

lemma getPixel_addr_parts:
  "getPixel row col r g b pixelNumber =
     ''P['' @ join '','' (addr_parts row col pixelNumber) @ ''](''  @
      show_int (truthy_or_0 r) @ '','' @ show_int (truthy_or_0 g) @ '','' @ show_int (truthy_or_0 b) @ '')''"
  by (cases row; cases col; cases pixelNumber) (simp_all add: getPixel_def addr_parts_def)

text \<open>
  Claim C1. The pixel command is \<open>P[\<close>, the address parts joined by commas in the order
  row part (\<open>r:\<close>), column part (\<open>c:\<close>), identifier (no prefix), then \<open>](r,g,b)\<close>.
  Row 2, column 3 with colour (10,20,30) gives \<open>P[r:2,c:3](10,20,30)\<close>; pixel 42 alone with
  colour (0,0,255) gives \<open>P[42](0,0,255)\<close>.
\<close>

theorem getPixel_order:
  "getPixel (Some rowv) (Some colv) r g b (Some p) =
     ''P[r:'' @ toString rowv @ '',c:'' @ toString colv @ '','' @ show_int p @ ''](''  @
      show_int (truthy_or_0 r) @ '','' @ show_int (truthy_or_0 g) @ '','' @ show_int (truthy_or_0 b) @ '')''
   \<and> getPixel row col r g b pixelNumber =
     ''P['' @ join '','' (addr_parts row col pixelNumber) @ ''](''  @
      show_int (truthy_or_0 r) @ '','' @ show_int (truthy_or_0 g) @ '','' @ show_int (truthy_or_0 b) @ '')''
   \<and> getPixel (Some (Num 2)) (Some (Num 3)) (Some 10) (Some 20) (Some 30) None = ''P[r:2,c:3](10,20,30)''
   \<and> getPixel None None (Some 0) (Some 0) (Some 255) (Some 42) = ''P[42](0,0,255)''"
proof (intro conjI)
  show "getPixel (Some rowv) (Some colv) r g b (Some p) =
     ''P[r:'' @ toString rowv @ '',c:'' @ toString colv @ '','' @ show_int p @ ''](''  @
      show_int (truthy_or_0 r) @ '','' @ show_int (truthy_or_0 g) @ '','' @ show_int (truthy_or_0 b) @ '')''"
    by (simp add: getPixel_def)
  show "getPixel row col r g b pixelNumber =
     ''P['' @ join '','' (addr_parts row col pixelNumber) @ ''](''  @
      show_int (truthy_or_0 r) @ '','' @ show_int (truthy_or_0 g) @ '','' @ show_int (truthy_or_0 b) @ '')''"
    by (rule getPixel_addr_parts)
  show "getPixel (Some (Num 2)) (Some (Num 3)) (Some 10) (Some 20) (Some 30) None = ''P[r:2,c:3](10,20,30)''"
    by (simp add: getPixel_def truthy_or_0_def show_int_def show_nat_digit show_nat_step digit_char_def)
  show "getPixel None None (Some 0) (Some 0) (Some 255) (Some 42) = ''P[42](0,0,255)''"
    by (simp add: getPixel_def truthy_or_0_def show_int_def show_nat_digit show_nat_step digit_char_def)
qed


section \<open>Properties of the colour bleed engine\<close>

lemma bleedLoop_map:
  "bleedLoop f oc dc steps s colors =
     colors @ map (\<lambda>k. bleedColor f k steps oc dc) [s ..< nat (\<lfloor>steps\<rfloor> + 1)]"
proof (induction f oc dc steps s colors rule: bleedLoop.induct)
  case (1 f oc dc steps s colors)
  show ?case
  proof (cases "real s \<le> steps")
    case True
    then have "int s \<le> \<lfloor>steps\<rfloor>" by (simp add: le_floor_iff)
    then have lt: "s < nat (\<lfloor>steps\<rfloor> + 1)" by simp
    have "bleedLoop f oc dc steps s colors =
          bleedLoop f oc dc steps (Suc s) (colors @ [bleedColor f s steps oc dc])"
      using True by (subst bleedLoop.simps) simp
    also have "\<dots> = (colors @ [bleedColor f s steps oc dc]) @
          map (\<lambda>k. bleedColor f k steps oc dc) [Suc s ..< nat (\<lfloor>steps\<rfloor> + 1)]"
      using 1 True by simp
    also have "\<dots> = colors @ map (\<lambda>k. bleedColor f k steps oc dc) [s ..< nat (\<lfloor>steps\<rfloor> + 1)]"
      using lt by (simp add: upt_conv_Cons)
    finally show ?thesis .
  next
    case False
    then have "\<not> int s \<le> \<lfloor>steps\<rfloor>" by (simp add: le_floor_iff)
    then have "nat (\<lfloor>steps\<rfloor> + 1) \<le> s" by simp
    then show ?thesis using False by (subst bleedLoop.simps) simp
  qed
qed

lemma bleedLoop_v1_map:
  "bleedLoop_v1 oc dc steps s colors =
     colors @ map (\<lambda>k. bleedColor_v1 k steps oc dc) [s ..< nat (\<lfloor>steps\<rfloor> + 1)]"
proof (induction oc dc steps s colors rule: bleedLoop_v1.induct)
  case (1 oc dc steps s colors)
  show ?case
  proof (cases "real s \<le> steps")
    case True
    then have "int s \<le> \<lfloor>steps\<rfloor>" by (simp add: le_floor_iff)
    then have lt: "s < nat (\<lfloor>steps\<rfloor> + 1)" by simp
    have "bleedLoop_v1 oc dc steps s colors =
          bleedLoop_v1 oc dc steps (Suc s) (colors @ [bleedColor_v1 s steps oc dc])"
      using True by (subst bleedLoop_v1.simps) simp
    also have "\<dots> = (colors @ [bleedColor_v1 s steps oc dc]) @
          map (\<lambda>k. bleedColor_v1 k steps oc dc) [Suc s ..< nat (\<lfloor>steps\<rfloor> + 1)]"
      using 1 True by simp
    also have "\<dots> = colors @ map (\<lambda>k. bleedColor_v1 k steps oc dc) [s ..< nat (\<lfloor>steps\<rfloor> + 1)]"
      using lt by (simp add: upt_conv_Cons)
    finally show ?thesis .
  next
    case False
    then have "\<not> int s \<le> \<lfloor>steps\<rfloor>" by (simp add: le_floor_iff)
    then have "nat (\<lfloor>steps\<rfloor> + 1) \<le> s" by simp
    then show ?thesis using False by (subst bleedLoop_v1.simps) simp
  qed
qed

lemma bleedChannel_v1_linear:
  "bleedChannel_v1 s steps a b = bleedChannel linearInterpolate s steps a b"
  by (simp add: bleedChannel_v1_def bleedChannel_def linearInterpolate_def diffStep_def algebra_simps)

lemma bleedColor_v1_linear:
  "bleedColor_v1 s steps oc dc = bleedColor linearInterpolate s steps oc dc"
  by (cases oc; cases dc) (simp add: bleedChannel_v1_linear)

lemma colorBleed_v1_eq: "colorBleed_v1 oc dc steps step = colorBleed oc dc steps step None"
  by (simp add: colorBleed_v1_def colorBleed_def bleedLoop_map bleedLoop_v1_map bleedColor_v1_linear)

lemma js_index_nat: "n < length xs \<Longrightarrow> js_index xs (real n) = Some (xs ! n)"
  by (simp add: js_index_def)

lemma js_index_1: "1 < length xs \<Longrightarrow> js_index xs 1 = Some (xs ! 1)"
  using js_index_nat [of 1 xs] by simp

lemma colorBleed_full:
  "2 \<le> x \<Longrightarrow> colorBleed c1 c2 (Some x) None f =
     Colors (map (\<lambda>k. bleedColor (case f of None \<Rightarrow> linearInterpolate | Some g \<Rightarrow> g) k x c1 c2)
               [0 ..< nat (\<lfloor>x\<rfloor> + 1)])"
  by (simp add: colorBleed_def bleedLoop_map)

lemma bleedLoop_two:
  "bleedLoop f c1 c2 2 0 [] = [bleedColor f 0 2 c1 c2, bleedColor f 1 2 c1 c2, bleedColor f 2 2 c1 c2]"
proof -
  have "[0 ..< nat (\<lfloor>2::real\<rfloor> + 1)] = [0, 1, 2]"
    by (simp add: upt_conv_Cons)
  then show ?thesis
    by (simp add: bleedLoop_map)
qed

lemma colorBleed_fallback:
  "steps = None \<or> (\<exists>x. steps = Some x \<and> x < 2) \<Longrightarrow>
   colorBleed c1 c2 steps step f =
     OneColor (bleedColor (case f of None \<Rightarrow> linearInterpolate | Some g \<Rightarrow> g) 1 2 c1 c2)"
  by (auto simp: colorBleed_def bleedLoop_two js_index_1)

lemma channel_ok_bleedChannel: "channel_ok (bleedChannel f s steps a b)"
  by (simp add: channel_ok_def bleedChannel_def)

lemma rgb_ok_bleedColor: "rgb_ok (bleedColor f s steps c1 c2)"
  by (cases c1; cases c2) (simp add: channel_ok_bleedChannel)

lemma list_all_bleedLoop: "list_all rgb_ok (bleedLoop f c1 c2 steps 0 [])"
  by (simp add: bleedLoop_map list_all_iff rgb_ok_bleedColor)

lemma js_index_in_set: "js_index xs i = Some c \<Longrightarrow> c \<in> set xs"
  by (auto simp: js_index_def split: if_splits)

lemma colorBleed_cases:
  obtains (all) x g where "colorBleed c1 c2 steps step f = Colors (bleedLoop g c1 c2 x 0 [])"
  | (one) x g i c where "colorBleed c1 c2 steps step f = OneColor c" "js_index (bleedLoop g c1 c2 x 0 []) i = Some c"
  | (none) "colorBleed c1 c2 steps step f = NoColor"
proof -
  define p where "p = (case steps of None \<Rightarrow> (2, Some 1) | Some n \<Rightarrow> if n < 2 then (2, Some 1) else (n, step))"
  define g where "g = (case f of None \<Rightarrow> linearInterpolate | Some h \<Rightarrow> h)"
  obtain x st where p: "p = (x, st)"
    by (cases p)
  have eq: "colorBleed c1 c2 steps step f =
    (case st of
       Some i \<Rightarrow> (case js_index (bleedLoop g c1 c2 x 0 []) i of Some c \<Rightarrow> OneColor c | None \<Rightarrow> NoColor)
     | None \<Rightarrow> Colors (bleedLoop g c1 c2 x 0 []))"
    using p unfolding colorBleed_def p_def [symmetric] g_def [symmetric] by (simp add: Let_def)
  show thesis
  proof (cases st)
    case None
    with eq all show ?thesis by simp
  next
    case (Some i)
    show ?thesis
    proof (cases "js_index (bleedLoop g c1 c2 x 0 []) i")
      case None
      with eq Some none show ?thesis by simp
    next
      case (Some c)
      with eq \<open>st = Some i\<close> one show ?thesis by simp
    qed
  qed
qed

lemma bleed_ok_colorBleed: "bleed_ok (colorBleed c1 c2 steps step f)"
proof (cases rule: colorBleed_cases [of c1 c2 steps step f])
  case (all x g)
  then show ?thesis by (simp add: list_all_bleedLoop)
next
  case (one x g i c)
  from one(2) have "c \<in> set (bleedLoop g c1 c2 x 0 [])"
    by (rule js_index_in_set)
  then have "rgb_ok c"
    using list_all_bleedLoop [of g c1 c2 x] by (simp add: list_all_iff)
  with one(1) show ?thesis by simp
next
  case none
  then show ?thesis by simp
qed

lemma linear_start: "linearInterpolate 0 steps a b = a"
  by (simp add: linearInterpolate_def)

lemma linear_end: "steps \<noteq> 0 \<Longrightarrow> linearInterpolate steps steps a b = b"
  by (simp add: linearInterpolate_def)

lemma linear_mid: "linearInterpolate 1 2 a b = (a + b) / 2"
  by (simp add: linearInterpolate_def field_simps)

lemma sine_start: "steps \<noteq> 0 \<Longrightarrow> sineInterpolate 0 steps a b = a"
  by (simp add: sineInterpolate_def)

lemma sine_end:
  assumes "steps \<noteq> 0"
  shows "sineInterpolate steps steps a b = b"
proof -
  have angle: "steps / steps * pi - pi / 2 = pi / 2"
    using assms by simp
  have "(b - a) * ((sin (pi / 2) + 1) / 2) + a = b"
    by (simp add: diff_divide_distrib)
  then show ?thesis
    unfolding sineInterpolate_def Let_def angle .
qed

lemma sine_mid: "sineInterpolate 1 2 a b = (a + b) / 2"
proof -
  have angle: "1 / 2 * pi - pi / 2 = (0::real)"
    by simp
  have "(b - a) * ((sin 0 + 1) / 2) + a = (a + b) / 2"
    by (simp add: field_simps)
  then show ?thesis
    unfolding sineInterpolate_def Let_def angle .
qed

lemma bleedChannel_roundClamp: "bleedChannel f s steps a b = roundClamp (f (real s) steps a b)"
  by (simp add: bleedChannel_def roundClamp_def)

lemma bleedColor_linear_start: "bleedColor linearInterpolate 0 steps c1 c2 = roundClampColor c1"
  by (cases c1; cases c2) (simp add: bleedChannel_roundClamp linear_start)

lemma bleedColor_linear_end:
  "0 < n \<Longrightarrow> bleedColor linearInterpolate n (real n) c1 c2 = roundClampColor c2"
  by (cases c1; cases c2) (simp add: bleedChannel_roundClamp linear_end)

text \<open>
  In exact arithmetic the two versions of \<open>colorBleed\<close> return the same colours
  (\<open>colorBleed_v1_eq\<close>), and for a whole number of steps the bleed between two colours of
  real channels ends on the destination, rounded and clamped.
\<close>

lemma colorBleed_exact_end:
  assumes "2 \<le> n"
  shows "\<exists>colors. colorBleed c1 c2 (Some (real n)) None None = Colors colors
           \<and> length colors = n + 1
           \<and> colors ! 0 = roundClampColor c1
           \<and> colors ! n = roundClampColor c2"
proof -
  let ?cs = "map (\<lambda>k. bleedColor linearInterpolate k (real n) c1 c2) [0 ..< n + 1]"
  have cnt: "nat (\<lfloor>real n\<rfloor> + 1) = n + 1"
    by simp
  have full: "colorBleed c1 c2 (Some (real n)) None None = Colors ?cs"
    using assms colorBleed_full [of "real n" c1 c2 None] cnt by simp
  have len: "length ?cs = n + 1"
    by simp
  have first: "?cs ! 0 = roundClampColor c1"
    by (simp add: upt_conv_Cons bleedColor_linear_start del: upt_Suc)
  have "?cs ! n = bleedColor linearInterpolate (0 + n) (real n) c1 c2"
    by (subst nth_map) (simp_all del: upt_Suc)
  then have last: "?cs ! n = roundClampColor c2"
    using assms by (simp add: bleedColor_linear_end)
  show ?thesis
    using full len first last by simp
qed

subsection \<open>Rounding\<close>

lemma round_even_int: "round_even (of_int k) = k"
  by (simp add: round_even_def)

lemma round_even_err: "\<bar>of_int (round_even y) - y\<bar> \<le> 1 / 2"
  unfolding round_even_def Let_def by (auto; linarith)

lemma round53_err: "\<bar>round53 x - x\<bar> \<le> \<bar>x\<bar> / 2 ^ 53"
proof (cases "x = 0")
  case True
  then show ?thesis by (simp add: round53_def)
next
  case False
  define e where "e = \<lfloor>log 2 \<bar>x\<bar>\<rfloor> - 52"
  define ulp :: real where "ulp = 2 powr (of_int e)"
  have pos: "0 < ulp" by (simp add: ulp_def)
  have r: "round53 x = of_int (round_even (x / ulp)) * ulp"
    using False by (simp add: round53_def e_def ulp_def Let_def)
  have "\<bar>round53 x - x\<bar> = \<bar>of_int (round_even (x / ulp)) - x / ulp\<bar> * ulp"
  proof -
    have "round53 x - x = (of_int (round_even (x / ulp)) - x / ulp) * ulp"
      using pos by (simp add: r field_simps)
    then show ?thesis using pos by (simp add: abs_mult)
  qed
  also have "\<dots> \<le> (1 / 2) * ulp"
    using round_even_err [of "x / ulp"] pos by (intro mult_right_mono) simp_all
  also have "\<dots> \<le> \<bar>x\<bar> / 2 ^ 53"
  proof -
    have "of_int e + 52 \<le> log 2 \<bar>x\<bar>"
      unfolding e_def by simp
    then have "2 powr (of_int e + 52) \<le> 2 powr (log 2 \<bar>x\<bar>)"
      by simp
    also have "\<dots> = \<bar>x\<bar>"
      using False by simp
    finally have "ulp * 2 powr 52 \<le> \<bar>x\<bar>"
      by (simp add: ulp_def powr_add)
    moreover have "(2::real) powr 52 = 2 ^ 52"
      by (simp add: powr_numeral)
    ultimately have "ulp * 2 ^ 52 \<le> \<bar>x\<bar>" by simp
    then show ?thesis by simp
  qed
  finally show ?thesis .
qed


lemma two_powr_int: "(2::real) powr (of_int (int a - int b)) = 2 ^ a / 2 ^ b"
proof -
  have "(2::real) powr (of_int (int a - int b)) = 2 powr (real a - real b)"
    by simp
  also have "\<dots> = 2 powr (real a) / 2 powr (real b)"
    by (rule powr_diff)
  also have "\<dots> = 2 ^ a / 2 ^ b"
    by (simp add: powr_realpow)
  finally show ?thesis .
qed

lemma round53_floor:
  assumes nz: "x \<noteq> 0" and lo: "2 ^ a / 2 ^ b \<le> \<bar>x\<bar>" and hi: "\<bar>x\<bar> < 2 * (2 ^ a / 2 ^ b)"
  shows "\<lfloor>log 2 \<bar>x\<bar>\<rfloor> = int a - int b"
proof -
  have "2 powr (of_int (int a - int b)) \<le> \<bar>x\<bar>"
    unfolding two_powr_int using lo .
  then have l1: "of_int (int a - int b) \<le> log 2 \<bar>x\<bar>"
    using nz by (simp add: le_log_iff)
  have "(2::real) powr (of_int (int a - int b) + 1) = 2 powr (of_int (int a - int b)) * 2 powr 1"
    by (rule powr_add)
  then have p2: "(2::real) powr (of_int (int a - int b) + 1) = 2 * (2 ^ a / 2 ^ b)"
    unfolding two_powr_int by simp
  have "\<bar>x\<bar> < 2 powr (of_int (int a - int b) + 1)"
    unfolding p2 using hi .
  then have l2: "log 2 \<bar>x\<bar> < of_int (int a - int b) + 1"
    using nz by (simp add: log_less_iff)
  show ?thesis
    using l1 l2 by (rule floor_unique)
qed

lemma round53_scaled:
  assumes lo: "2 ^ 52 \<le> \<bar>x\<bar> * 2 ^ n" and hi: "\<bar>x\<bar> * 2 ^ n < 2 ^ 53"
  shows "round53 x = of_int (round_even (x * 2 ^ n)) / 2 ^ n"
proof -
  have nz: "x \<noteq> 0" using lo by auto
  have "2 ^ 52 / 2 ^ n \<le> \<bar>x\<bar>"
    using lo by (simp add: field_simps)
  moreover have "\<bar>x\<bar> < 2 * (2 ^ 52 / 2 ^ n)"
    using hi by (simp add: field_simps)
  ultimately have fl: "\<lfloor>log 2 \<bar>x\<bar>\<rfloor> = int 52 - int n"
    using nz by (intro round53_floor)
  have "(2::real) powr (of_int (int 52 - int n - 52)) = 2 powr (of_int (int 0 - int n))"
    by simp
  also have "\<dots> = 2 ^ 0 / 2 ^ n"
    by (rule two_powr_int)
  finally have u: "(2::real) powr (of_int (int 52 - int n - 52)) = 1 / 2 ^ n"
    by simp
  show ?thesis
    using nz unfolding round53_def Let_def fl u by simp
qed

lemma round53_int:
  assumes "\<bar>k\<bar> \<le> 2 ^ 53"
  shows "round53 (of_int k) = of_int k"
proof (cases "k = 0")
  case True
  then show ?thesis by (simp add: round53_def)
next
  case False
  define L where "L = \<lfloor>log 2 \<bar>real_of_int k\<bar>\<rfloor>"
  have k1: "1 \<le> \<bar>real_of_int k\<bar>"
    using False by (simp flip: of_int_abs)
  have "real_of_int \<bar>k\<bar> \<le> real_of_int (2 ^ 53)"
    using assms by (simp only: of_int_le_iff)
  then have k2: "\<bar>real_of_int k\<bar> \<le> 2 ^ 53"
    by simp
  have "0 \<le> log 2 \<bar>real_of_int k\<bar>"
    using k1 by simp
  then have L0: "0 \<le> L"
    by (simp add: L_def)
  have "log 2 \<bar>real_of_int k\<bar> \<le> log 2 (2 ^ 53)"
    using k1 k2 by (subst log_le_cancel_iff) simp_all
  also have "\<dots> = 53"
    using log_pow_cancel [of 2 53] by simp
  finally have "L \<le> 53"
    unfolding L_def by (simp add: floor_le_iff)
  have r: "round53 (of_int k) =
      of_int (round_even (of_int k / 2 powr (of_int (L - 52)))) * 2 powr (of_int (L - 52))"
    using False by (simp add: round53_def L_def Let_def)
  show ?thesis
  proof (cases "L \<le> 52")
    case True
    define m where "m = nat (52 - L)"
    have "L - 52 = int 0 - int m"
      using True by (simp add: m_def)
    then have u: "(2::real) powr (of_int (L - 52)) = 1 / 2 ^ m"
      using two_powr_int [of 0 m] by simp
    have q: "real_of_int k / (1 / 2 ^ m) = of_int (k * 2 ^ m)"
      by simp
    have "real_of_int (k * 2 ^ m) * (1 / 2 ^ m) = of_int k"
      by simp
    then show ?thesis
      unfolding r u q round_even_int .
  next
    case F: False
    with \<open>L \<le> 53\<close> have L: "L = 53" by simp
    then have "53 \<le> log 2 \<bar>real_of_int k\<bar>"
      unfolding L_def by linarith
    then have "2 powr 53 \<le> \<bar>real_of_int k\<bar>"
      using k1 by (simp add: le_log_iff)
    then have "2 ^ 53 \<le> \<bar>real_of_int k\<bar>"
      by (simp add: powr_numeral)
    then have "real_of_int (2 ^ 53) \<le> real_of_int \<bar>k\<bar>"
      by simp
    then have "2 ^ 53 \<le> \<bar>k\<bar>"
      by (simp only: of_int_le_iff)
    with assms have "\<bar>k\<bar> = 2 ^ 53"
      by simp
    then have "even \<bar>k\<bar>"
      by simp
    then have "even k"
      by simp
    then obtain h where h: "k = 2 * h"
      by (rule evenE)
    have u: "(2::real) powr (of_int (53 - 52)) = 2"
      by simp
    have q: "real_of_int k / 2 = of_int h"
      using h by simp
    have "real_of_int h * 2 = of_int k"
      using h by simp
    then show ?thesis
      unfolding r L u q round_even_int .
  qed
qed

lemma rounding_round53: "rounding round53"
  unfolding rounding_def using round53_err round53_int by blast

lemma rounding_id: "rounding id"
  by (simp add: rounding_def)

subsection \<open>The ends of a bleed in rounded arithmetic\<close>

lemma rounding_err: "rounding fl \<Longrightarrow> \<bar>fl x - x\<bar> \<le> \<bar>x\<bar> / 2 ^ 53"
  by (simp add: rounding_def)

lemma rounding_int: "rounding fl \<Longrightarrow> \<bar>k\<bar> \<le> 2 ^ 53 \<Longrightarrow> fl (of_int k) = of_int k"
  by (simp add: rounding_def)

lemma rounding_0: "rounding fl \<Longrightarrow> fl 0 = 0"
  using rounding_int [of fl 0] by simp

lemma rounding_1: "rounding fl \<Longrightarrow> fl 1 = 1"
  using rounding_int [of fl 1] by simp

lemma rounding_int31:
  assumes "rounding fl" and "\<bar>k\<bar> \<le> 2 ^ 31"
  shows "fl (of_int k) = of_int k"
proof -
  have "\<bar>k\<bar> \<le> 2 ^ 53" using assms(2) by simp
  with assms(1) show ?thesis by (rule rounding_int)
qed

lemma rounding_diff31:
  assumes "rounding fl" and "\<bar>a\<bar> \<le> 2 ^ 31" and "\<bar>b\<bar> \<le> 2 ^ 31"
  shows "fl (of_int b - of_int a) = of_int (b - a)"
proof -
  have "\<bar>b - a\<bar> \<le> 2 ^ 53" using assms(2,3) by simp
  with assms(1) have "fl (of_int (b - a)) = of_int (b - a)" by (rule rounding_int)
  then show ?thesis by simp
qed

lemma linear_fl_start:
  assumes "rounding fl" and "\<bar>a\<bar> \<le> 2 ^ 31"
  shows "linearInterpolate_fl fl 0 steps (of_int a) v = of_int a"
  using assms by (simp add: linearInterpolate_fl_def rounding_0 rounding_int31)

lemma linear_fl_end:
  assumes r: "rounding fl" and a: "\<bar>a\<bar> \<le> 2 ^ 31" and b: "\<bar>b\<bar> \<le> 2 ^ 31" and s: "steps \<noteq> 0"
  shows "linearInterpolate_fl fl steps steps (of_int a) (of_int b) = of_int b"
proof -
  have d: "fl (of_int b - of_int a) = of_int (b - a)"
    using r a b by (rule rounding_diff31)
  have one: "fl (steps / steps) = 1"
    using s r by (simp add: rounding_1)
  have d2: "fl (of_int (b - a)) = of_int (b - a)"
    using d by simp
  have "of_int (b - a) + real_of_int a = of_int b"
    by simp
  then show ?thesis
    unfolding linearInterpolate_fl_def d one mult_1_right d2
    using rounding_int31 [OF r b] by simp
qed

lemma v1_fl_start:
  assumes "rounding fl" and "\<bar>a\<bar> \<le> 2 ^ 31"
  shows "fl (of_int a + fl (real 0 * diffStep_fl fl steps (of_int a) v)) = of_int a"
  using assms by (simp add: rounding_0 rounding_int31)

lemma v1_fl_end:
  assumes r: "rounding fl" and a: "\<bar>a\<bar> \<le> 2 ^ 31" and b: "\<bar>b\<bar> \<le> 2 ^ 31" and n: "0 < n"
  shows "js_round (fl (of_int a + fl (real n * diffStep_fl fl (real n) (of_int a) (of_int b)))) = b"
proof -
  define u :: real where "u = 1 / 2 ^ 53"
  define d :: real where "d = of_int (b - a)"
  define q where "q = fl (d / real n)"
  define p where "p = fl (real n * q)"
  define v where "v = fl (of_int a + p)"
  have u0: "0 \<le> u" and u1: "u \<le> 1"
    by (simp_all add: u_def)
  have err: "\<bar>fl x - x\<bar> \<le> \<bar>x\<bar> * u" for x
    using rounding_err [OF r, of x] by (simp add: u_def)
  have ds: "diffStep_fl fl (real n) (of_int a) (of_int b) = q"
    unfolding diffStep_fl_def Let_def rounding_diff31 [OF r a b] q_def d_def ..
  have npos: "0 < real n" using n by simp
  have "\<bar>q - d / real n\<bar> \<le> \<bar>d / real n\<bar> * u"
    unfolding q_def by (rule err)
  then have "real n * \<bar>q - d / real n\<bar> \<le> real n * (\<bar>d / real n\<bar> * u)"
    using npos by (intro mult_left_mono) simp_all
  moreover have "real n * \<bar>q - d / real n\<bar> = \<bar>real n * q - d\<bar>"
  proof -
    have "real n * q - d = real n * (q - d / real n)"
      using npos by (simp add: field_simps)
    then show ?thesis using npos by (simp add: abs_mult)
  qed
  moreover have "real n * (\<bar>d / real n\<bar> * u) = \<bar>d\<bar> * u"
    using npos by simp
  ultimately have e1: "\<bar>real n * q - d\<bar> \<le> \<bar>d\<bar> * u"
    by simp
  have "\<bar>real n * q\<bar> \<le> \<bar>d\<bar> + \<bar>d\<bar> * u"
    using e1 by linarith
  also have "\<dots> \<le> \<bar>d\<bar> + \<bar>d\<bar> * 1"
    using u1 by (intro add_left_mono mult_left_mono) simp_all
  finally have nq: "\<bar>real n * q\<bar> \<le> 2 * \<bar>d\<bar>"
    by simp
  have "\<bar>p - real n * q\<bar> \<le> \<bar>real n * q\<bar> * u"
    unfolding p_def by (rule err)
  also have "\<dots> \<le> (2 * \<bar>d\<bar>) * u"
    using nq u0 by (rule mult_right_mono)
  finally have e2: "\<bar>p - real n * q\<bar> \<le> 2 * \<bar>d\<bar> * u" .
  have e3: "\<bar>p - d\<bar> \<le> 3 * \<bar>d\<bar> * u"
    using e1 e2 by linarith
  have bd: "of_int a + d = of_int b"
    by (simp add: d_def)
  have "3 * \<bar>d\<bar> * u \<le> 3 * \<bar>d\<bar> * 1"
    using u1 by (intro mult_left_mono) simp_all
  then have "\<bar>of_int a + p\<bar> \<le> \<bar>real_of_int b\<bar> + 3 * \<bar>d\<bar>"
    using e3 bd by linarith
  then have "\<bar>of_int a + p\<bar> * u \<le> (\<bar>real_of_int b\<bar> + 3 * \<bar>d\<bar>) * u"
    using u0 by (rule mult_right_mono)
  moreover have "\<bar>v - (of_int a + p)\<bar> \<le> \<bar>of_int a + p\<bar> * u"
    unfolding v_def by (rule err)
  ultimately have e4: "\<bar>v - (of_int a + p)\<bar> \<le> (\<bar>real_of_int b\<bar> + 3 * \<bar>d\<bar>) * u"
    by linarith
  have e5: "\<bar>v - of_int b\<bar> \<le> (\<bar>real_of_int b\<bar> + 6 * \<bar>d\<bar>) * u"
    using e3 e4 bd by (simp add: algebra_simps)
  have "\<bar>b - a\<bar> \<le> 2 ^ 32" using a b by simp
  then have "real_of_int \<bar>b - a\<bar> \<le> real_of_int (2 ^ 32)"
    by (simp only: of_int_le_iff)
  then have dle: "\<bar>d\<bar> \<le> 2 ^ 32"
    by (simp add: d_def)
  have "real_of_int \<bar>b\<bar> \<le> real_of_int (2 ^ 31)"
    using b by (simp only: of_int_le_iff)
  then have ble: "\<bar>real_of_int b\<bar> \<le> 2 ^ 31"
    by simp
  have "(\<bar>real_of_int b\<bar> + 6 * \<bar>d\<bar>) * u \<le> (2 ^ 31 + 6 * 2 ^ 32) * u"
    using ble dle u0 by (intro mult_right_mono) linarith+
  also have "\<dots> < 1 / 2"
    by (simp add: u_def)
  finally have "\<bar>v - of_int b\<bar> < 1 / 2"
    using e5 by linarith
  then have "js_round v = b"
    unfolding js_round_def by linarith
  then show ?thesis
    unfolding ds p_def [symmetric] v_def [symmetric] .
qed


lemma bleedLoop_v1_fl_map:
  "bleedLoop_v1_fl fl oc dc steps s colors =
     colors @ map (\<lambda>k. bleedColor_v1_fl fl k steps oc dc) [s ..< nat (\<lfloor>steps\<rfloor> + 1)]"
proof (induction fl oc dc steps s colors rule: bleedLoop_v1_fl.induct)
  case (1 fl oc dc steps s colors)
  show ?case
  proof (cases "real s \<le> steps")
    case True
    then have "int s \<le> \<lfloor>steps\<rfloor>" by (simp add: le_floor_iff)
    then have lt: "s < nat (\<lfloor>steps\<rfloor> + 1)" by simp
    have "bleedLoop_v1_fl fl oc dc steps s colors =
          bleedLoop_v1_fl fl oc dc steps (Suc s) (colors @ [bleedColor_v1_fl fl s steps oc dc])"
      using True by (subst bleedLoop_v1_fl.simps) simp
    also have "\<dots> = (colors @ [bleedColor_v1_fl fl s steps oc dc]) @
          map (\<lambda>k. bleedColor_v1_fl fl k steps oc dc) [Suc s ..< nat (\<lfloor>steps\<rfloor> + 1)]"
      using 1 True by simp
    also have "\<dots> = colors @ map (\<lambda>k. bleedColor_v1_fl fl k steps oc dc) [s ..< nat (\<lfloor>steps\<rfloor> + 1)]"
      using lt by (simp add: upt_conv_Cons)
    finally show ?thesis .
  next
    case False
    then have "\<not> int s \<le> \<lfloor>steps\<rfloor>" by (simp add: le_floor_iff)
    then have "nat (\<lfloor>steps\<rfloor> + 1) \<le> s" by simp
    then show ?thesis using False by (subst bleedLoop_v1_fl.simps) simp
  qed
qed

lemma colorBleed_fl_full:
  "2 \<le> x \<Longrightarrow> colorBleed_fl fl c1 c2 (Some x) None None =
     Colors (map (\<lambda>k. bleedColor (linearInterpolate_fl fl) k x c1 c2) [0 ..< nat (\<lfloor>x\<rfloor> + 1)])"
  by (simp add: colorBleed_fl_def bleedLoop_map)

lemma colorBleed_v1_fl_full:
  "2 \<le> x \<Longrightarrow> colorBleed_v1_fl fl c1 c2 (Some x) None =
     Colors (map (\<lambda>k. bleedColor_v1_fl fl k x c1 c2) [0 ..< nat (\<lfloor>x\<rfloor> + 1)])"
  by (simp add: colorBleed_v1_fl_def bleedLoop_v1_fl_map)

lemma linearInterpolate_fl_id: "linearInterpolate_fl id = linearInterpolate"
  by (intro ext) (simp add: linearInterpolate_fl_def linearInterpolate_def)

lemma colorBleed_fl_id: "colorBleed_fl id = colorBleed"
  by (intro ext) (simp only: colorBleed_fl_def colorBleed_def linearInterpolate_fl_id)

lemma bleedColor_v1_fl_id: "bleedColor_v1_fl id s steps oc dc = bleedColor_v1 s steps oc dc"
  by (cases oc; cases dc)
    (simp add: bleedChannel_v1_fl_def bleedChannel_v1_def diffStep_fl_def diffStep_def)

lemma colorBleed_v1_fl_id: "colorBleed_v1_fl id = colorBleed_v1"
  by (intro ext)
    (simp add: colorBleed_v1_fl_def colorBleed_v1_def bleedLoop_v1_fl_map bleedLoop_v1_map
      bleedColor_v1_fl_id)

lemma roundClamp_int: "roundClamp (of_int k) = min (max k 0) 255"
proof -
  have "js_round (of_int k) = k"
    unfolding js_round_def by linarith
  then show ?thesis by (simp add: roundClamp_def)
qed

lemma bleedChannel_fl_start:
  assumes "rounding fl" and "\<bar>a\<bar> \<le> 2 ^ 31"
  shows "bleedChannel (linearInterpolate_fl fl) 0 steps (of_int a) v = roundClamp (of_int a)"
  using linear_fl_start [OF assms] by (simp add: bleedChannel_roundClamp)

lemma bleedChannel_fl_end:
  assumes "rounding fl" and "\<bar>a\<bar> \<le> 2 ^ 31" and "\<bar>b\<bar> \<le> 2 ^ 31" and "0 < n"
  shows "bleedChannel (linearInterpolate_fl fl) n (real n) (of_int a) (of_int b) = roundClamp (of_int b)"
proof -
  have "real n \<noteq> 0" using assms(4) by simp
  from linear_fl_end [OF assms(1-3) this] show ?thesis
    by (simp add: bleedChannel_roundClamp)
qed

lemma bleedChannel_v1_fl_start:
  assumes "rounding fl" and "\<bar>a\<bar> \<le> 2 ^ 31"
  shows "bleedChannel_v1_fl fl 0 steps (of_int a) v = roundClamp (of_int a)"
  using v1_fl_start [OF assms, of steps v] by (simp add: bleedChannel_v1_fl_def roundClamp_def)

lemma bleedChannel_v1_fl_end:
  assumes "rounding fl" and "\<bar>a\<bar> \<le> 2 ^ 31" and "\<bar>b\<bar> \<le> 2 ^ 31" and "0 < n"
  shows "bleedChannel_v1_fl fl n (real n) (of_int a) (of_int b) = roundClamp (of_int b)"
  unfolding bleedChannel_v1_fl_def Let_def v1_fl_end [OF assms] roundClamp_int ..

lemma bleedColor_fl_start:
  assumes "rounding fl" and "int32_color c1"
  shows "bleedColor (linearInterpolate_fl fl) 0 steps (to_color c1) (to_color c2) = roundClampColor (to_color c1)"
  using assms by (cases c1; cases c2) (simp add: to_color_def bleedChannel_fl_start)

lemma bleedColor_fl_end:
  assumes "rounding fl" and "int32_color c1" and "int32_color c2" and "0 < n"
  shows "bleedColor (linearInterpolate_fl fl) n (real n) (to_color c1) (to_color c2) = roundClampColor (to_color c2)"
  using assms by (cases c1; cases c2) (simp add: to_color_def bleedChannel_fl_end)

lemma bleedColor_v1_fl_start:
  assumes "rounding fl" and "int32_color c1"
  shows "bleedColor_v1_fl fl 0 steps (to_color c1) (to_color c2) = roundClampColor (to_color c1)"
  using assms by (cases c1; cases c2) (simp add: to_color_def bleedChannel_v1_fl_start)

lemma bleedColor_v1_fl_end:
  assumes "rounding fl" and "int32_color c1" and "int32_color c2" and "0 < n"
  shows "bleedColor_v1_fl fl n (real n) (to_color c1) (to_color c2) = roundClampColor (to_color c2)"
  using assms by (cases c1; cases c2) (simp add: to_color_def bleedChannel_v1_fl_end)

subsection \<open>Some bleeds in the arithmetic of the doubles\<close>

lemma round53_0: "round53 0 = 0"
  by (simp add: round53_def)

lemma linear_fl_value:
  assumes "round53 (b - a) = d" and "round53 (s / n) = t" and "round53 (d * t) = p"
    and "round53 (p + a) = v"
  shows "linearInterpolate_fl round53 s n a b = v"
  using assms by (simp add: linearInterpolate_fl_def)

lemma v1_fl_value:
  assumes "round53 (b - a) = d" and "round53 (d / n) = q" and "round53 (real s * q) = p"
    and "round53 (a + p) = v"
  shows "bleedChannel_v1_fl round53 s n a b = roundClamp v"
  using assms by (simp add: bleedChannel_v1_fl_def diffStep_fl_def roundClamp_def)

lemma linear_fl_7_10_45: "bleedChannel (linearInterpolate_fl round53) 7 10 0 45 = 31"
proof -
  have v: "linearInterpolate_fl round53 (real 7) 10 0 45 = 8866461766385663 / 2 ^ 48"
  proof (rule linear_fl_value)
    show "round53 (45 - 0) = 45"
      using round53_int [of 45] by simp
    show "round53 (real 7 / 10) = 6305039478318694 / 2 ^ 53"
      using round53_scaled [of "real 7 / 10" 53] by (simp add: round_even_def)
    show "round53 (45 * (6305039478318694 / 2 ^ 53)) = 8866461766385663 / 2 ^ 48"
      using round53_scaled [of "45 * (6305039478318694 / 2 ^ 53)" 48] by (simp add: round_even_def)
    show "round53 ((8866461766385663 / 2 ^ 48) + 0) = 8866461766385663 / 2 ^ 48"
      using round53_scaled [of "(8866461766385663 / 2 ^ 48) + 0" 48] by (simp add: round_even_def)
  qed
  show ?thesis
    unfolding bleedChannel_roundClamp v by (simp add: roundClamp_def js_round_def)
qed

lemma v1_fl_7_10_45: "bleedChannel_v1_fl round53 7 10 0 45 = 32"
proof -
  have "bleedChannel_v1_fl round53 7 10 0 45 = roundClamp (63 / 2)"
  proof (rule v1_fl_value)
    show "round53 (45 - 0) = 45"
      using round53_int [of 45] by simp
    show "round53 (45 / 10) = 9 / 2"
      using round53_scaled [of "45 / 10" 50] by (simp add: round_even_def)
    show "round53 (real 7 * (9 / 2)) = 63 / 2"
      using round53_scaled [of "real 7 * (9 / 2)" 48] by (simp add: round_even_def)
    show "round53 (0 + (63 / 2)) = 63 / 2"
      using round53_scaled [of "0 + (63 / 2)" 48] by (simp add: round_even_def)
  qed
  then show ?thesis
    by (simp add: roundClamp_def js_round_def)
qed

lemma linear_fl_7_10_85: "bleedChannel (linearInterpolate_fl round53) 7 10 0 85 = 59"
proof -
  have v: "linearInterpolate_fl round53 (real 7) 10 0 85 = 8373880557142015 / 2 ^ 47"
  proof (rule linear_fl_value)
    show "round53 (85 - 0) = 85"
      using round53_int [of 85] by simp
    show "round53 (real 7 / 10) = 6305039478318694 / 2 ^ 53"
      using round53_scaled [of "real 7 / 10" 53] by (simp add: round_even_def)
    show "round53 (85 * (6305039478318694 / 2 ^ 53)) = 8373880557142015 / 2 ^ 47"
      using round53_scaled [of "85 * (6305039478318694 / 2 ^ 53)" 47] by (simp add: round_even_def)
    show "round53 ((8373880557142015 / 2 ^ 47) + 0) = 8373880557142015 / 2 ^ 47"
      using round53_scaled [of "(8373880557142015 / 2 ^ 47) + 0" 47] by (simp add: round_even_def)
  qed
  show ?thesis
    unfolding bleedChannel_roundClamp v by (simp add: roundClamp_def js_round_def)
qed

lemma v1_fl_7_10_85: "bleedChannel_v1_fl round53 7 10 0 85 = 60"
proof -
  have "bleedChannel_v1_fl round53 7 10 0 85 = roundClamp (119 / 2)"
  proof (rule v1_fl_value)
    show "round53 (85 - 0) = 85"
      using round53_int [of 85] by simp
    show "round53 (85 / 10) = 17 / 2"
      using round53_scaled [of "85 / 10" 49] by (simp add: round_even_def)
    show "round53 (real 7 * (17 / 2)) = 119 / 2"
      using round53_scaled [of "real 7 * (17 / 2)" 47] by (simp add: round_even_def)
    show "round53 (0 + (119 / 2)) = 119 / 2"
      using round53_scaled [of "0 + (119 / 2)" 47] by (simp add: round_even_def)
  qed
  then show ?thesis
    by (simp add: roundClamp_def js_round_def)
qed

lemma linear_fl_7_10_165: "bleedChannel (linearInterpolate_fl round53) 7 10 0 165 = 115"
proof -
  have v: "linearInterpolate_fl round53 (real 7) 10 0 165 = 8127589952520191 / 2 ^ 46"
  proof (rule linear_fl_value)
    show "round53 (165 - 0) = 165"
      using round53_int [of 165] by simp
    show "round53 (real 7 / 10) = 6305039478318694 / 2 ^ 53"
      using round53_scaled [of "real 7 / 10" 53] by (simp add: round_even_def)
    show "round53 (165 * (6305039478318694 / 2 ^ 53)) = 8127589952520191 / 2 ^ 46"
      using round53_scaled [of "165 * (6305039478318694 / 2 ^ 53)" 46] by (simp add: round_even_def)
    show "round53 ((8127589952520191 / 2 ^ 46) + 0) = 8127589952520191 / 2 ^ 46"
      using round53_scaled [of "(8127589952520191 / 2 ^ 46) + 0" 46] by (simp add: round_even_def)
  qed
  show ?thesis
    unfolding bleedChannel_roundClamp v by (simp add: roundClamp_def js_round_def)
qed

lemma v1_fl_7_10_165: "bleedChannel_v1_fl round53 7 10 0 165 = 116"
proof -
  have "bleedChannel_v1_fl round53 7 10 0 165 = roundClamp (231 / 2)"
  proof (rule v1_fl_value)
    show "round53 (165 - 0) = 165"
      using round53_int [of 165] by simp
    show "round53 (165 / 10) = 33 / 2"
      using round53_scaled [of "165 / 10" 48] by (simp add: round_even_def)
    show "round53 (real 7 * (33 / 2)) = 231 / 2"
      using round53_scaled [of "real 7 * (33 / 2)" 46] by (simp add: round_even_def)
    show "round53 (0 + (231 / 2)) = 231 / 2"
      using round53_scaled [of "0 + (231 / 2)" 46] by (simp add: round_even_def)
  qed
  then show ?thesis
    by (simp add: roundClamp_def js_round_def)
qed

lemma v1_fl_7_7_half: "bleedChannel_v1_fl round53 7 7 0 (61 / 2) = 30"
proof -
  have "bleedChannel_v1_fl round53 7 7 0 (61 / 2) = roundClamp (8584986789675007 / 2 ^ 48)"
  proof (rule v1_fl_value)
    show "round53 ((61 / 2) - 0) = 61 / 2"
      using round53_scaled [of "(61 / 2) - 0" 48] by (simp add: round_even_def)
    show "round53 ((61 / 2) / 7) = 4905706736957147 / 2 ^ 50"
      using round53_scaled [of "(61 / 2) / 7" 50] by (simp add: round_even_def)
    show "round53 (real 7 * (4905706736957147 / 2 ^ 50)) = 8584986789675007 / 2 ^ 48"
      using round53_scaled [of "real 7 * (4905706736957147 / 2 ^ 50)" 48] by (simp add: round_even_def)
    show "round53 (0 + (8584986789675007 / 2 ^ 48)) = 8584986789675007 / 2 ^ 48"
      using round53_scaled [of "0 + (8584986789675007 / 2 ^ 48)" 48] by (simp add: round_even_def)
  qed
  then show ?thesis
    by (simp add: roundClamp_def js_round_def)
qed

lemma linear_fl_0_frac: "bleedChannel (linearInterpolate_fl round53) 0 (5 / 2) 0 255 = 0"
proof -
  have v: "linearInterpolate_fl round53 (real 0) (5 / 2) 0 255 = 0"
  proof (rule linear_fl_value)
    show "round53 (255 - 0) = 255"
      using round53_int [of 255] by simp
    show "round53 (real 0 / (5 / 2)) = 0"
      by (simp add: round53_0)
    show "round53 (255 * 0) = 0"
      by (simp add: round53_0)
    show "round53 (0 + 0) = 0"
      by (simp add: round53_0)
  qed
  show ?thesis
    unfolding bleedChannel_roundClamp v by (simp add: roundClamp_def js_round_def)
qed

lemma v1_fl_0_frac: "bleedChannel_v1_fl round53 0 (5 / 2) 0 255 = 0"
proof -
  have "bleedChannel_v1_fl round53 0 (5 / 2) 0 255 = roundClamp (0)"
  proof (rule v1_fl_value)
    show "round53 (255 - 0) = 255"
      using round53_int [of 255] by simp
    show "round53 (255 / (5 / 2)) = 102"
      using round53_int [of 102] by simp
    show "round53 (real 0 * 102) = 0"
      by (simp add: round53_0)
    show "round53 (0 + 0) = 0"
      by (simp add: round53_0)
  qed
  then show ?thesis
    by (simp add: roundClamp_def js_round_def)
qed

lemma linear_fl_1_frac: "bleedChannel (linearInterpolate_fl round53) 1 (5 / 2) 0 255 = 102"
proof -
  have v: "linearInterpolate_fl round53 (real 1) (5 / 2) 0 255 = 102"
  proof (rule linear_fl_value)
    show "round53 (255 - 0) = 255"
      using round53_int [of 255] by simp
    show "round53 (real 1 / (5 / 2)) = 7205759403792794 / 2 ^ 54"
      using round53_scaled [of "real 1 / (5 / 2)" 54] by (simp add: round_even_def)
    show "round53 (255 * (7205759403792794 / 2 ^ 54)) = 102"
      using round53_scaled [of "255 * (7205759403792794 / 2 ^ 54)" 46] by (simp add: round_even_def)
    show "round53 (102 + 0) = 102"
      using round53_int [of 102] by simp
  qed
  show ?thesis
    unfolding bleedChannel_roundClamp v by (simp add: roundClamp_def js_round_def)
qed

lemma v1_fl_1_frac: "bleedChannel_v1_fl round53 1 (5 / 2) 0 255 = 102"
proof -
  have "bleedChannel_v1_fl round53 1 (5 / 2) 0 255 = roundClamp (102)"
  proof (rule v1_fl_value)
    show "round53 (255 - 0) = 255"
      using round53_int [of 255] by simp
    show "round53 (255 / (5 / 2)) = 102"
      using round53_int [of 102] by simp
    show "round53 (real 1 * 102) = 102"
      using round53_int [of 102] by simp
    show "round53 (0 + 102) = 102"
      using round53_int [of 102] by simp
  qed
  then show ?thesis
    by (simp add: roundClamp_def js_round_def)
qed

lemma linear_fl_2_frac: "bleedChannel (linearInterpolate_fl round53) 2 (5 / 2) 0 255 = 204"
proof -
  have v: "linearInterpolate_fl round53 (real 2) (5 / 2) 0 255 = 204"
  proof (rule linear_fl_value)
    show "round53 (255 - 0) = 255"
      using round53_int [of 255] by simp
    show "round53 (real 2 / (5 / 2)) = 7205759403792794 / 2 ^ 53"
      using round53_scaled [of "real 2 / (5 / 2)" 53] by (simp add: round_even_def)
    show "round53 (255 * (7205759403792794 / 2 ^ 53)) = 204"
      using round53_scaled [of "255 * (7205759403792794 / 2 ^ 53)" 45] by (simp add: round_even_def)
    show "round53 (204 + 0) = 204"
      using round53_int [of 204] by simp
  qed
  show ?thesis
    unfolding bleedChannel_roundClamp v by (simp add: roundClamp_def js_round_def)
qed

lemma v1_fl_2_frac: "bleedChannel_v1_fl round53 2 (5 / 2) 0 255 = 204"
proof -
  have "bleedChannel_v1_fl round53 2 (5 / 2) 0 255 = roundClamp (204)"
  proof (rule v1_fl_value)
    show "round53 (255 - 0) = 255"
      using round53_int [of 255] by simp
    show "round53 (255 / (5 / 2)) = 102"
      using round53_int [of 102] by simp
    show "round53 (real 2 * 102) = 204"
      using round53_int [of 204] by simp
    show "round53 (0 + 204) = 204"
      using round53_int [of 204] by simp
  qed
  then show ?thesis
    by (simp add: roundClamp_def js_round_def)
qed

lemma colorBleed_fl_step:
  assumes "2 \<le> x" and "real k \<le> x"
  shows "colorBleed_fl fl c1 c2 (Some x) (Some (real k)) None =
           OneColor (bleedColor (linearInterpolate_fl fl) k x c1 c2)"
proof -
  have "int k \<le> \<lfloor>x\<rfloor>"
    using assms(2) by (simp add: le_floor_iff)
  then have k: "k < nat (\<lfloor>x\<rfloor> + 1)"
    by simp
  let ?cs = "map (\<lambda>k. bleedColor (linearInterpolate_fl fl) k x c1 c2) [0 ..< nat (\<lfloor>x\<rfloor> + 1)]"
  have "js_index ?cs (real k) = Some (?cs ! k)"
    using k by (intro js_index_nat) simp
  also have "?cs ! k = bleedColor (linearInterpolate_fl fl) (0 + k) x c1 c2"
    using k by (subst nth_map) (simp_all del: upt_Suc)
  finally have "js_index ?cs (real k) = Some (bleedColor (linearInterpolate_fl fl) k x c1 c2)"
    by simp
  then show ?thesis
    using assms(1) by (simp add: colorBleed_fl_def bleedLoop_map)
qed

lemma colorBleed_v1_fl_step:
  assumes "2 \<le> x" and "real k \<le> x"
  shows "colorBleed_v1_fl fl c1 c2 (Some x) (Some (real k)) =
           OneColor (bleedColor_v1_fl fl k x c1 c2)"
proof -
  have "int k \<le> \<lfloor>x\<rfloor>"
    using assms(2) by (simp add: le_floor_iff)
  then have k: "k < nat (\<lfloor>x\<rfloor> + 1)"
    by simp
  let ?cs = "map (\<lambda>k. bleedColor_v1_fl fl k x c1 c2) [0 ..< nat (\<lfloor>x\<rfloor> + 1)]"
  have "js_index ?cs (real k) = Some (?cs ! k)"
    using k by (intro js_index_nat) simp
  also have "?cs ! k = bleedColor_v1_fl fl (0 + k) x c1 c2"
    using k by (subst nth_map) (simp_all del: upt_Suc)
  finally have "js_index ?cs (real k) = Some (bleedColor_v1_fl fl k x c1 c2)"
    by simp
  then show ?thesis
    using assms(1) by (simp add: colorBleed_v1_fl_def bleedLoop_v1_fl_map)
qed

text \<open>
  Step 7 of the bleed of 10 steps from black to (45, 85, 165): the current script computes
  \<open>45 * (7 / 10)\<close>, which is rounded below 31.5, the first version \<open>7 * (45 / 10)\<close>, which
  is 31.5; in exact arithmetic both are 31.5.
\<close>

lemma colorBleed_versions_differ:
  "colorBleed_fl round53 (0, 0, 0) (45, 85, 165) (Some 10) (Some 7) None = OneColor (31, 59, 115)
   \<and> colorBleed_v1_fl round53 (0, 0, 0) (45, 85, 165) (Some 10) (Some 7) = OneColor (32, 60, 116)
   \<and> colorBleed (0, 0, 0) (45, 85, 165) (Some 10) (Some 7) None = OneColor (32, 60, 116)
   \<and> colorBleed_v1 (0, 0, 0) (45, 85, 165) (Some 10) (Some 7) = OneColor (32, 60, 116)"
proof -
  have a: "colorBleed_fl round53 (0, 0, 0) (45, 85, 165) (Some 10) (Some 7) None = OneColor (31, 59, 115)"
    using colorBleed_fl_step [of 10 7 round53 "(0, 0, 0)" "(45, 85, 165)"]
    by (simp add: linear_fl_7_10_45 linear_fl_7_10_85 linear_fl_7_10_165)
  have b: "colorBleed_v1_fl round53 (0, 0, 0) (45, 85, 165) (Some 10) (Some 7) = OneColor (32, 60, 116)"
    using colorBleed_v1_fl_step [of 10 7 round53 "(0, 0, 0)" "(45, 85, 165)"]
    by (simp add: v1_fl_7_10_45 v1_fl_7_10_85 v1_fl_7_10_165)
  have c: "colorBleed (0, 0, 0) (45, 85, 165) (Some 10) (Some 7) None = OneColor (32, 60, 116)"
    using colorBleed_fl_step [of 10 7 id "(0, 0, 0)" "(45, 85, 165)"]
    by (simp add: colorBleed_fl_id linearInterpolate_fl_id bleedChannel_roundClamp
        linearInterpolate_def roundClamp_def js_round_def)
  show ?thesis
    using a b c by (simp add: colorBleed_v1_eq)
qed

text \<open>
  A destination channel that is not a whole number: the first version ends the bleed of 7
  steps from 0 to 30.5 on 30, since \<open>7 * (30.5 / 7)\<close> is rounded below 30.5; 30.5 itself
  rounds to 31.
\<close>

lemma colorBleed_v1_fraction_end:
  "colorBleed_v1_fl round53 (0, 0, 0) (61 / 2, 61 / 2, 61 / 2) (Some 7) (Some 7) = OneColor (30, 30, 30)
   \<and> roundClampColor (61 / 2, 61 / 2, 61 / 2) = (31, 31, 31)"
proof -
  have "colorBleed_v1_fl round53 (0, 0, 0) (61 / 2, 61 / 2, 61 / 2) (Some 7) (Some 7) = OneColor (30, 30, 30)"
    using colorBleed_v1_fl_step [of 7 7 round53 "(0, 0, 0)" "(61 / 2, 61 / 2, 61 / 2)"]
    by (simp add: v1_fl_7_7_half)
  then show ?thesis
    by (simp add: roundClamp_def js_round_def)
qed

text \<open>
  Claim C2. In arithmetic rounded as the doubles are, for all colours \<open>c1\<close>, \<open>c2\<close> of
  whole-number channels and every number of steps \<open>steps \<ge> 2\<close>, each version of
  \<open>colorBleed(c1, c2, steps)\<close> returns an array of \<open>floor(steps) + 1\<close> colours whose
  element 0 is \<open>c1\<close> with every channel rounded and clamped. When \<open>steps\<close> is a whole number
  \<open>n\<close>, these are \<open>n + 1\<close> colours and the element \<open>n\<close> is \<open>c2\<close> with every channel rounded
  and clamped. Each version has its own array: under rounding the two arrays differ between
  the ends (\<open>colorBleed_versions_differ\<close>). With \<open>fl\<close> the identity this is the bleed in
  exact arithmetic (\<open>colorBleed_fl_id\<close>, \<open>colorBleed_v1_fl_id\<close>).
\<close>

theorem colorBleed_endpoints:
  assumes r: "rounding fl" and s: "2 \<le> steps" and c1: "int32_color c1" and c2: "int32_color c2"
  shows "\<exists>colors colors1.
           colorBleed_fl fl (to_color c1) (to_color c2) (Some steps) None None = Colors colors
         \<and> colorBleed_v1_fl fl (to_color c1) (to_color c2) (Some steps) None = Colors colors1
         \<and> length colors = nat \<lfloor>steps\<rfloor> + 1
         \<and> length colors1 = nat \<lfloor>steps\<rfloor> + 1
         \<and> colors ! 0 = roundClampColor (to_color c1)
         \<and> colors1 ! 0 = roundClampColor (to_color c1)
         \<and> (\<forall>n. steps = real n \<longrightarrow>
               length colors = n + 1 \<and> length colors1 = n + 1
             \<and> colors ! n = roundClampColor (to_color c2)
             \<and> colors1 ! n = roundClampColor (to_color c2))"
proof -
  define m where "m = nat \<lfloor>steps\<rfloor>"
  let ?cs = "map (\<lambda>k. bleedColor (linearInterpolate_fl fl) k steps (to_color c1) (to_color c2)) [0 ..< m + 1]"
  let ?cs1 = "map (\<lambda>k. bleedColor_v1_fl fl k steps (to_color c1) (to_color c2)) [0 ..< m + 1]"
  have cnt: "nat (\<lfloor>steps\<rfloor> + 1) = m + 1"
    unfolding m_def using s by linarith
  have full: "colorBleed_fl fl (to_color c1) (to_color c2) (Some steps) None None = Colors ?cs"
    using colorBleed_fl_full [OF s, of fl "to_color c1" "to_color c2"] cnt by simp
  have full1: "colorBleed_v1_fl fl (to_color c1) (to_color c2) (Some steps) None = Colors ?cs1"
    using colorBleed_v1_fl_full [OF s, of fl "to_color c1" "to_color c2"] cnt by simp
  have len: "length ?cs = m + 1" "length ?cs1 = m + 1"
    by simp_all
  have first: "?cs ! 0 = roundClampColor (to_color c1)"
    by (simp add: upt_conv_Cons bleedColor_fl_start [OF r c1] del: upt_Suc)
  have first1: "?cs1 ! 0 = roundClampColor (to_color c1)"
    by (simp add: upt_conv_Cons bleedColor_v1_fl_start [OF r c1] del: upt_Suc)
  have last: "length ?cs = n + 1 \<and> length ?cs1 = n + 1
      \<and> ?cs ! n = roundClampColor (to_color c2) \<and> ?cs1 ! n = roundClampColor (to_color c2)"
    if n: "steps = real n" for n
  proof -
    have mn: "m = n"
      unfolding m_def n by simp
    have pos: "0 < n"
      using s n by (cases n) simp_all
    have "?cs ! n = bleedColor (linearInterpolate_fl fl) (0 + n) steps (to_color c1) (to_color c2)"
      unfolding mn by (subst nth_map) (simp_all del: upt_Suc)
    then have a: "?cs ! n = roundClampColor (to_color c2)"
      using bleedColor_fl_end [OF r c1 c2 pos] n by simp
    have "?cs1 ! n = bleedColor_v1_fl fl (0 + n) steps (to_color c1) (to_color c2)"
      unfolding mn by (subst nth_map) (simp_all del: upt_Suc)
    then have b: "?cs1 ! n = roundClampColor (to_color c2)"
      using bleedColor_v1_fl_end [OF r c1 c2 pos] n by simp
    show ?thesis
      using a b len mn by simp
  qed
  show ?thesis
    unfolding full full1 m_def [symmetric]
    using len first first1 last by blast
qed

theorem colorBleed_endpoints_witness:
  "rounding round53 \<and> rounding id \<and> (2::real) \<le> 10 \<and> (2::real) \<le> 250 / 3
   \<and> int32_color (0, 0, 0) \<and> int32_color (45, 85, 165)
   \<and> (\<exists>colors colors1.
           colorBleed_fl round53 (to_color (0, 0, 0)) (to_color (45, 85, 165)) (Some 10) None None = Colors colors
         \<and> colorBleed_v1_fl round53 (to_color (0, 0, 0)) (to_color (45, 85, 165)) (Some 10) None = Colors colors1
         \<and> length colors = 11 \<and> length colors1 = 11
         \<and> colors ! 0 = (0, 0, 0) \<and> colors1 ! 0 = (0, 0, 0)
         \<and> colors ! 10 = (45, 85, 165) \<and> colors1 ! 10 = (45, 85, 165))
   \<and> (\<exists>colors colors1.
           colorBleed_fl round53 (to_color (0, 0, 0)) (to_color (45, 85, 165)) (Some (250 / 3)) None None = Colors colors
         \<and> colorBleed_v1_fl round53 (to_color (0, 0, 0)) (to_color (45, 85, 165)) (Some (250 / 3)) None = Colors colors1
         \<and> length colors = 84 \<and> length colors1 = 84
         \<and> colors ! 0 = (0, 0, 0) \<and> colors1 ! 0 = (0, 0, 0))
   \<and> (\<exists>colors colors1.
           colorBleed (to_color (0, 0, 0)) (to_color (45, 85, 165)) (Some 10) None None = Colors colors
         \<and> colorBleed_v1 (to_color (0, 0, 0)) (to_color (45, 85, 165)) (Some 10) None = Colors colors1
         \<and> length colors = 11 \<and> length colors1 = 11
         \<and> colors ! 0 = (0, 0, 0) \<and> colors1 ! 0 = (0, 0, 0)
         \<and> colors ! 10 = (45, 85, 165) \<and> colors1 ! 10 = (45, 85, 165))"
proof -
  have r: "rounding round53"
    by (rule rounding_round53)
  have i: "rounding id"
    by (rule rounding_id)
  have s: "(2::real) \<le> 10" "(2::real) \<le> 250 / 3"
    by simp_all
  have c: "int32_color (0, 0, 0)" "int32_color (45, 85, 165)"
    by simp_all
  have v: "roundClampColor (to_color (0, 0, 0)) = (0, 0, 0)"
    "roundClampColor (to_color (45, 85, 165)) = (45, 85, 165)"
    by (simp_all add: to_color_def roundClamp_def js_round_def)
  have n: "(10::real) = real 10"
    by simp
  have f: "nat \<lfloor>250 / 3 :: real\<rfloor> + 1 = 84"
    by simp
  have whole: "\<exists>colors colors1.
           colorBleed_fl fl (to_color (0, 0, 0)) (to_color (45, 85, 165)) (Some 10) None None = Colors colors
         \<and> colorBleed_v1_fl fl (to_color (0, 0, 0)) (to_color (45, 85, 165)) (Some 10) None = Colors colors1
         \<and> length colors = 11 \<and> length colors1 = 11
         \<and> colors ! 0 = (0, 0, 0) \<and> colors1 ! 0 = (0, 0, 0)
         \<and> colors ! 10 = (45, 85, 165) \<and> colors1 ! 10 = (45, 85, 165)"
    if fl: "rounding fl" for fl
  proof -
    from colorBleed_endpoints [OF fl s(1) c] obtain colors colors1 where
      a: "colorBleed_fl fl (to_color (0, 0, 0)) (to_color (45, 85, 165)) (Some 10) None None = Colors colors"
        "colorBleed_v1_fl fl (to_color (0, 0, 0)) (to_color (45, 85, 165)) (Some 10) None = Colors colors1"
        "colors ! 0 = roundClampColor (to_color (0, 0, 0))"
        "colors1 ! 0 = roundClampColor (to_color (0, 0, 0))"
        and e: "\<forall>n. (10::real) = real n \<longrightarrow>
                 length colors = n + 1 \<and> length colors1 = n + 1
               \<and> colors ! n = roundClampColor (to_color (45, 85, 165))
               \<and> colors1 ! n = roundClampColor (to_color (45, 85, 165))"
      by blast
    from e n have "length colors = 10 + 1 \<and> length colors1 = 10 + 1
               \<and> colors ! 10 = roundClampColor (to_color (45, 85, 165))
               \<and> colors1 ! 10 = roundClampColor (to_color (45, 85, 165))"
      by blast
    with a show ?thesis
      unfolding v by auto
  qed
  have first: "\<exists>colors colors1.
           colorBleed_fl round53 (to_color (0, 0, 0)) (to_color (45, 85, 165)) (Some 10) None None = Colors colors
         \<and> colorBleed_v1_fl round53 (to_color (0, 0, 0)) (to_color (45, 85, 165)) (Some 10) None = Colors colors1
         \<and> length colors = 11 \<and> length colors1 = 11
         \<and> colors ! 0 = (0, 0, 0) \<and> colors1 ! 0 = (0, 0, 0)
         \<and> colors ! 10 = (45, 85, 165) \<and> colors1 ! 10 = (45, 85, 165)"
    using r by (rule whole)
  have third: "\<exists>colors colors1.
           colorBleed (to_color (0, 0, 0)) (to_color (45, 85, 165)) (Some 10) None None = Colors colors
         \<and> colorBleed_v1 (to_color (0, 0, 0)) (to_color (45, 85, 165)) (Some 10) None = Colors colors1
         \<and> length colors = 11 \<and> length colors1 = 11
         \<and> colors ! 0 = (0, 0, 0) \<and> colors1 ! 0 = (0, 0, 0)
         \<and> colors ! 10 = (45, 85, 165) \<and> colors1 ! 10 = (45, 85, 165)"
    using whole [OF i] unfolding colorBleed_fl_id colorBleed_v1_fl_id .
  from colorBleed_endpoints [OF r s(2) c] obtain ds ds1 where
    b: "colorBleed_fl round53 (to_color (0, 0, 0)) (to_color (45, 85, 165)) (Some (250 / 3)) None None = Colors ds"
      "colorBleed_v1_fl round53 (to_color (0, 0, 0)) (to_color (45, 85, 165)) (Some (250 / 3)) None = Colors ds1"
      "length ds = nat \<lfloor>250 / 3 :: real\<rfloor> + 1"
      "length ds1 = nat \<lfloor>250 / 3 :: real\<rfloor> + 1"
      "ds ! 0 = roundClampColor (to_color (0, 0, 0))"
      "ds1 ! 0 = roundClampColor (to_color (0, 0, 0))"
    by blast
  have second: "\<exists>colors colors1.
           colorBleed_fl round53 (to_color (0, 0, 0)) (to_color (45, 85, 165)) (Some (250 / 3)) None None = Colors colors
         \<and> colorBleed_v1_fl round53 (to_color (0, 0, 0)) (to_color (45, 85, 165)) (Some (250 / 3)) None = Colors colors1
         \<and> length colors = 84 \<and> length colors1 = 84
         \<and> colors ! 0 = (0, 0, 0) \<and> colors1 ! 0 = (0, 0, 0)"
    using b unfolding v f by blast
  show ?thesis
    using r i s c first second third by blast
qed

text \<open>
  A number of steps that is not whole: for \<open>steps = 2.5\<close>, a value the claim allows, each
  version returns 3 colours, not \<open>steps + 1\<close>, the last is not the destination, and there is
  no element at index \<open>steps\<close>. This holds in the arithmetic of the doubles and in exact
  arithmetic alike.
\<close>

theorem colorBleed_fractional_steps_counterexample:
  "colorBleed_fl round53 (0, 0, 0) (255, 255, 255) (Some (5 / 2)) None None =
     Colors [(0, 0, 0), (102, 102, 102), (204, 204, 204)]
   \<and> colorBleed_v1_fl round53 (0, 0, 0) (255, 255, 255) (Some (5 / 2)) None =
     Colors [(0, 0, 0), (102, 102, 102), (204, 204, 204)]
   \<and> colorBleed (0, 0, 0) (255, 255, 255) (Some (5 / 2)) None None =
     Colors [(0, 0, 0), (102, 102, 102), (204, 204, 204)]
   \<and> colorBleed_v1 (0, 0, 0) (255, 255, 255) (Some (5 / 2)) None =
     Colors [(0, 0, 0), (102, 102, 102), (204, 204, 204)]
   \<and> js_index [(0, 0, 0), (102, 102, 102), (204, 204, 204) :: rgb] (5 / 2) = None
   \<and> roundClampColor (255, 255, 255) = (255, 255, 255)"
proof -
  have l: "[0 ..< nat (\<lfloor>5 / 2 :: real\<rfloor> + 1)] = [0, 1, 2]"
    by (simp add: upt_conv_Cons)
  have s: "(2::real) \<le> 5 / 2"
    by simp
  have a: "colorBleed_fl round53 (0, 0, 0) (255, 255, 255) (Some (5 / 2)) None None =
     Colors [(0, 0, 0), (102, 102, 102), (204, 204, 204)]"
    unfolding colorBleed_fl_full [OF s] l list.map bleedColor.simps
      linear_fl_0_frac linear_fl_1_frac linear_fl_2_frac ..
  have b: "colorBleed_v1_fl round53 (0, 0, 0) (255, 255, 255) (Some (5 / 2)) None =
     Colors [(0, 0, 0), (102, 102, 102), (204, 204, 204)]"
    unfolding colorBleed_v1_fl_full [OF s] l list.map bleedColor_v1_fl.simps
      v1_fl_0_frac v1_fl_1_frac v1_fl_2_frac ..
  have c: "colorBleed (0, 0, 0) (255, 255, 255) (Some (5 / 2)) None None =
     Colors [(0, 0, 0), (102, 102, 102), (204, 204, 204)]"
    unfolding colorBleed_full [OF s] l
    by (simp add: bleedChannel_def linearInterpolate_def js_round_def)
  have d: "js_index [(0, 0, 0), (102, 102, 102), (204, 204, 204) :: rgb] (5 / 2) = None"
    by (simp add: js_index_def)
  have e: "roundClampColor (255, 255, 255) = (255, 255, 255)"
    by (simp add: roundClamp_def js_round_def)
  show ?thesis
    using a b c d e by (simp add: colorBleed_v1_eq)
qed

lemma bleedColor_mid:
  assumes "f 1 2 r1 r2 = (r1 + r2) / 2" and "f 1 2 g1 g2 = (g1 + g2) / 2"
    and "f 1 2 b1 b2 = (b1 + b2) / 2"
  shows "bleedColor f 1 2 (r1, g1, b1) (r2, g2, b2) =
     (roundClamp ((r1 + r2) / 2), roundClamp ((g1 + g2) / 2), roundClamp ((b1 + b2) / 2))"
proof -
  have c: "bleedChannel f 1 2 a b = roundClamp (f 1 2 a b)" for a b
    by (simp add: bleedChannel_roundClamp)
  show ?thesis
    unfolding bleedColor.simps c assms ..
qed


text \<open>
  Claim C5. When \<open>steps\<close> is unset or less than 2, \<open>colorBleed\<close> takes \<open>steps = 2\<close> and
  \<open>step = 1\<close>, whatever \<open>step\<close> was given, and returns one colour and no error: the
  average of the two colours, every channel rounded and clamped. This holds for the default
  interpolation, for the linear and the sine interpolation, and for the first version of the
  function.
\<close>

theorem colorBleed_midpoint_fallback:
  assumes "steps = None \<or> (\<exists>x. steps = Some x \<and> x < 2)"
  shows "colorBleed (r1, g1, b1) (r2, g2, b2) steps step None =
           OneColor (roundClamp ((r1 + r2) / 2), roundClamp ((g1 + g2) / 2), roundClamp ((b1 + b2) / 2))
       \<and> colorBleed (r1, g1, b1) (r2, g2, b2) steps step (Some linearInterpolate) =
           OneColor (roundClamp ((r1 + r2) / 2), roundClamp ((g1 + g2) / 2), roundClamp ((b1 + b2) / 2))
       \<and> colorBleed (r1, g1, b1) (r2, g2, b2) steps step (Some sineInterpolate) =
           OneColor (roundClamp ((r1 + r2) / 2), roundClamp ((g1 + g2) / 2), roundClamp ((b1 + b2) / 2))
       \<and> colorBleed_v1 (r1, g1, b1) (r2, g2, b2) steps step =
           OneColor (roundClamp ((r1 + r2) / 2), roundClamp ((g1 + g2) / 2), roundClamp ((b1 + b2) / 2))"
proof -
  have lin: "bleedColor linearInterpolate 1 2 (r1, g1, b1) (r2, g2, b2) =
     (roundClamp ((r1 + r2) / 2), roundClamp ((g1 + g2) / 2), roundClamp ((b1 + b2) / 2))"
    by (rule bleedColor_mid) (rule linear_mid)+
  have sin: "bleedColor sineInterpolate 1 2 (r1, g1, b1) (r2, g2, b2) =
     (roundClamp ((r1 + r2) / 2), roundClamp ((g1 + g2) / 2), roundClamp ((b1 + b2) / 2))"
    by (rule bleedColor_mid) (rule sine_mid)+
  have 1: "colorBleed (r1, g1, b1) (r2, g2, b2) steps step None =
      OneColor (bleedColor linearInterpolate 1 2 (r1, g1, b1) (r2, g2, b2))"
    using colorBleed_fallback [OF assms, of "(r1, g1, b1)" "(r2, g2, b2)" step None] by simp
  have 2: "colorBleed (r1, g1, b1) (r2, g2, b2) steps step (Some linearInterpolate) =
      OneColor (bleedColor linearInterpolate 1 2 (r1, g1, b1) (r2, g2, b2))"
    using colorBleed_fallback [OF assms, of "(r1, g1, b1)" "(r2, g2, b2)" step "Some linearInterpolate"] by simp
  have 3: "colorBleed (r1, g1, b1) (r2, g2, b2) steps step (Some sineInterpolate) =
      OneColor (bleedColor sineInterpolate 1 2 (r1, g1, b1) (r2, g2, b2))"
    using colorBleed_fallback [OF assms, of "(r1, g1, b1)" "(r2, g2, b2)" step "Some sineInterpolate"] by simp
  show ?thesis
    unfolding colorBleed_v1_eq 1 2 3 lin sin by simp
qed

theorem colorBleed_midpoint_fallback_witness:
  "((Some 0 = None \<or> (\<exists>x. Some (0::real) = Some x \<and> x < 2))
    \<and> colorBleed (0, 0, 0) (255, 100, 7) (Some 0) None None = OneColor (128, 50, 4))
   \<and> colorBleed (0, 0, 0) (255, 100, 7) None (Some 0) None = OneColor (128, 50, 4)"
proof -
  have h: "Some 0 = None \<or> (\<exists>x. Some (0::real) = Some x \<and> x < 2)"
    by simp
  have v: "(roundClamp ((0 + 255) / 2), roundClamp ((0 + 100) / 2), roundClamp ((0 + 7) / 2)) = (128, 50, 4)"
    by (simp add: roundClamp_def js_round_def)
  show ?thesis
    using h colorBleed_midpoint_fallback [OF h, of 0 0 0 255 100 7 None]
      colorBleed_midpoint_fallback [of None 0 0 0 255 100 7 "Some 0"] v
    by simp
qed

section \<open>Properties of the multi-colour bleed\<close>

text \<open>
  A bleed has one element more than its steps, and three elements (the channels of the
  one colour) in the fallback.
\<close>

lemma bleed_items_colorBleed:
  "\<exists>fade. bleed_items (colorBleed c1 c2 (Some x) None f) = Some fade \<and> list_all item_ok fade
      \<and> length fade = (if 2 \<le> x then nat \<lfloor>x\<rfloor> else 2) + 1"
proof (cases "2 \<le> x")
  case True
  then have "0 \<le> \<lfloor>x\<rfloor>" by simp
  then have cnt: "nat (\<lfloor>x\<rfloor> + 1) = nat \<lfloor>x\<rfloor> + 1" by linarith
  show ?thesis
    using True cnt
    by (simp add: colorBleed_full list_all_iff rgb_ok_bleedColor del: upt_Suc)
next
  case False
  then have "Some x = None \<or> (\<exists>y. Some x = Some y \<and> y < 2)" by simp
  then have eq: "colorBleed c1 c2 (Some x) None f =
     OneColor (bleedColor (case f of None \<Rightarrow> linearInterpolate | Some g \<Rightarrow> g) 1 2 c1 c2)"
    by (rule colorBleed_fallback)
  obtain r g b where c: "bleedColor (case f of None \<Rightarrow> linearInterpolate | Some g \<Rightarrow> g) 1 2 c1 c2 = (r, g, b)"
    by (cases "bleedColor (case f of None \<Rightarrow> linearInterpolate | Some g \<Rightarrow> g) 1 2 c1 c2")
  have "rgb_ok (r, g, b)"
    using rgb_ok_bleedColor [of "case f of None \<Rightarrow> linearInterpolate | Some g \<Rightarrow> g" 1 2 c1 c2] c by simp
  then show ?thesis
    using False eq c by simp
qed

lemma multiLoop_result:
  "list_all item_ok colors \<Longrightarrow>
   \<exists>items. multiLoop x f cvs i colors = Some items \<and> list_all item_ok items
     \<and> (i \<le> length cvs \<longrightarrow>
          length items = length colors + (length cvs - i) * (if 2 \<le> x then nat \<lfloor>x\<rfloor> else 2)
             + (if i = 0 \<and> cvs \<noteq> [] then 1 else 0))"
proof (induction "length cvs - i" arbitrary: i colors)
  case 0
  then have "\<not> i < length cvs" by simp
  then have "multiLoop x f cvs i colors = Some colors"
    by (subst multiLoop.simps) simp
  with 0 show ?case by auto
next
  case (Suc k)
  then have lt: "i < length cvs" by simp
  define m where "m = (if 2 \<le> x then nat \<lfloor>x\<rfloor> else 2)"
  define cDest where "cDest = (if i = length cvs - 1 then cvs ! 0 else cvs ! (i + 1))"
  obtain fade where fade: "bleed_items (colorBleed (cvs ! i) cDest (Some x) None f) = Some fade"
    and ok: "list_all item_ok fade" and len: "length fade = m + 1"
    using bleed_items_colorBleed [of "cvs ! i" cDest x f] unfolding m_def by blast
  define seg where "seg = (if i > 0 then drop 1 fade else fade)"
  have step: "multiLoop x f cvs i colors = multiLoop x f cvs (Suc i) (colors @ seg)"
    using lt fade by (subst multiLoop.simps) (simp add: cDest_def seg_def Let_def)
  have segok: "list_all item_ok seg"
    using ok by (auto simp: seg_def list_all_iff dest: in_set_dropD)
  have k: "k = length cvs - Suc i" using Suc(2) by simp
  have ok2: "list_all item_ok (colors @ seg)"
    using Suc.prems segok by simp
  obtain items where items: "multiLoop x f cvs (Suc i) (colors @ seg) = Some items"
    and iok: "list_all item_ok items"
    and ilen: "Suc i \<le> length cvs \<longrightarrow>
          length items = length (colors @ seg) + (length cvs - Suc i) * m
             + (if Suc i = 0 \<and> cvs \<noteq> [] then 1 else 0)"
    using Suc(1) [OF k ok2] unfolding m_def by blast
  have "length items = length colors + (length cvs - i) * m + (if i = 0 \<and> cvs \<noteq> [] then 1 else 0)"
  proof -
    have lseg: "length seg = m + (if i = 0 then 1 else 0)"
      using len by (simp add: seg_def)
    have "length cvs - i = Suc (length cvs - Suc i)"
      using lt by simp
    then have mm: "(length cvs - i) * m = m + (length cvs - Suc i) * m"
      by simp
    have ne: "cvs \<noteq> []" using lt by auto
    show ?thesis
      using ilen lt lseg mm ne by simp
  qed
  with step items iok show ?case unfolding m_def by simp
qed

lemma multiColorBleed_any:
  "\<exists>items. multiColorBleed x f cvs = Some items \<and> list_all item_ok items
     \<and> length items = length cvs * (if 2 \<le> x then nat \<lfloor>x\<rfloor> else 2)"
proof -
  obtain items where items: "multiLoop x f cvs 0 [] = Some items"
    and iok: "list_all item_ok items"
    and ilen: "length items = length cvs * (if 2 \<le> x then nat \<lfloor>x\<rfloor> else 2) + (if cvs \<noteq> [] then 1 else 0)"
    using multiLoop_result [of "[]" x f cvs 0] by auto
  have "list_all item_ok (butlast items)"
    using iok by (auto simp: list_all_iff dest: in_set_butlastD)
  moreover have "length (butlast items) = length cvs * (if 2 \<le> x then nat \<lfloor>x\<rfloor> else 2)"
    using ilen by auto
  ultimately show ?thesis
    using items by (simp add: multiColorBleed_def)
qed

lemma multiColorBleed_result:
  "\<exists>items. multiColorBleed x f cvs = Some items \<and> list_all item_ok items
     \<and> (2 \<le> x \<longrightarrow> length items = length cvs * nat \<lfloor>x\<rfloor>)"
  using multiColorBleed_any [of x f cvs] by auto

lemma multiLoop_v1_eq: "multiLoop_v1 x cvs i colors = multiLoop x None cvs i colors"
proof (induction "length cvs - i" arbitrary: i colors)
  case 0
  then have "\<not> i < length cvs" by simp
  then show ?case
    by (subst multiLoop.simps, subst multiLoop_v1.simps) simp
next
  case (Suc k)
  then have k: "k = length cvs - Suc i" and lt: "i < length cvs" by simp_all
  have ih: "multiLoop_v1 x cvs (Suc i) cs = multiLoop x None cvs (Suc i) cs" for cs
    using Suc(1) [OF k] .
  have "multiLoop_v1 x cvs i colors =
    (if i < length cvs then
       (let cOrig = cvs ! i;
            cDest = (if i = length cvs - 1 then cvs ! 0 else cvs ! (i + 1))
        in case bleed_items (colorBleed_v1 cOrig cDest (Some x) None) of
             None \<Rightarrow> None
           | Some fade \<Rightarrow>
               multiLoop_v1 x cvs (Suc i) (colors @ (if i > 0 then drop 1 fade else fade)))
     else Some colors)"
    by (rule multiLoop_v1.simps)
  also have "\<dots> =
    (if i < length cvs then
       (let cOrig = cvs ! i;
            cDest = (if i = length cvs - 1 then cvs ! 0 else cvs ! (i + 1))
        in case bleed_items (colorBleed cOrig cDest (Some x) None None) of
             None \<Rightarrow> None
           | Some fade \<Rightarrow>
               multiLoop x None cvs (Suc i) (colors @ (if i > 0 then drop 1 fade else fade)))
     else Some colors)"
    by (simp only: ih colorBleed_v1_eq)
  also have "\<dots> = multiLoop x None cvs i colors"
    by (rule multiLoop.simps [symmetric])
  finally show ?case .
qed

lemma multiColorBleed_v1_eq: "multiColorBleed_v1 x cvs = multiColorBleed x None cvs"
  by (simp add: multiColorBleed_v1_def multiColorBleed_def multiLoop_v1_eq)

text \<open>
  Claim C3. For all colours, step counts, step indices and interpolation functions, every
  colour that \<open>colorBleed\<close> returns has its three channels integers in [0,255], since each
  channel is rounded and then clamped; so has every element of what \<open>multiColorBleed\<close>
  returns, which never fails. Both versions of the two functions are covered.
\<close>

theorem bleed_channels_in_range:
  "bleed_ok (colorBleed c1 c2 steps step f)
   \<and> bleed_ok (colorBleed_v1 c1 c2 steps step)
   \<and> (\<exists>items. multiColorBleed x f cvs = Some items \<and> list_all item_ok items)
   \<and> (\<exists>items. multiColorBleed_v1 x cvs = Some items \<and> list_all item_ok items)"
  using bleed_ok_colorBleed [of c1 c2 steps step f] bleed_ok_colorBleed [of c1 c2 steps step None]
    multiColorBleed_result [of x f cvs] multiColorBleed_result [of x None cvs]
  by (simp add: colorBleed_v1_eq multiColorBleed_v1_eq) blast

text \<open>
  With \<open>n = 4\<close> and the colours \<open>[0,0,0]\<close>, \<open>[255,255,255]\<close>, \<open>[0,0,255]\<close> the sequence has
  12 elements, not \<open>3 * 4 - 3 = 9\<close>: three segments of \<open>n + 1\<close> colours are \<open>3 * n + 3\<close>
  colours, less two shared boundaries and the final one.
\<close>

theorem multiColorBleed_length_counterexample:
  "\<exists>items. multiColorBleed 4 (Some linearInterpolate) [(0, 0, 0), (255, 255, 255), (0, 0, 255)] = Some items
      \<and> length items = 12 \<and> length items \<noteq> 3 * 4 - 3"
  using multiColorBleed_result [of 4 "Some linearInterpolate" "[(0, 0, 0), (255, 255, 255), (0, 0, 255)]"]
  by auto

text \<open>
  Claim C4, as amended. For every whole number \<open>n \<ge> 2\<close>, every interpolation function and
  all colours \<open>c1\<close>, \<open>c2\<close>, \<open>c3\<close>, \<open>multiColorBleed(n, fn, c1, c2, c3)\<close> returns a sequence
  of exactly \<open>3 * n\<close> elements (12 for \<open>n = 4\<close>), in both versions of the function.
\<close>

theorem multiColorBleed_length:
  assumes "2 \<le> n"
  shows "(\<exists>items. multiColorBleed (real n) f [c1, c2, c3] = Some items \<and> length items = 3 * n)
       \<and> (\<exists>items. multiColorBleed_v1 (real n) [c1, c2, c3] = Some items \<and> length items = 3 * n)"
proof -
  have x: "2 \<le> real n" using assms by simp
  show ?thesis
    using x multiColorBleed_result [of "real n" f "[c1, c2, c3]"]
      multiColorBleed_result [of "real n" None "[c1, c2, c3]"]
    by (auto simp: multiColorBleed_v1_eq)
qed

theorem multiColorBleed_length_witness:
  "(2::nat) \<le> 4
   \<and> (\<exists>items. multiColorBleed (real 4) None [(0, 0, 0), (255, 255, 255), (0, 0, 255)] = Some items
         \<and> length items = 3 * 4)
   \<and> (\<exists>items. multiColorBleed_v1 (real 4) [(0, 0, 0), (255, 255, 255), (0, 0, 255)] = Some items
         \<and> length items = 3 * 4)"
  using multiColorBleed_length [of 4 None "(0, 0, 0)" "(255, 255, 255)" "(0, 0, 255)"] by simp

section \<open>Properties of the sine interpolation\<close>

lemma sine_angle_minus: "n \<noteq> 0 \<Longrightarrow> (n - s) / n * pi - pi / 2 = - (s / n * pi - pi / 2)"
  by (simp add: diff_divide_distrib algebra_simps)

lemma sine_blend:
  "sineInterpolate s n a b = (b - a) * ((sin (s / n * pi - pi / 2) + 1) / 2) + a"
  by (simp add: sineInterpolate_def Let_def)

lemma sine_blend_rev:
  assumes "n \<noteq> 0"
  shows "sineInterpolate (n - s) n a b = (b - a) * ((1 - sin (s / n * pi - pi / 2)) / 2) + a"
proof -
  have "sin ((n - s) / n * pi - pi / 2) = - sin (s / n * pi - pi / 2)"
    unfolding sine_angle_minus [OF assms] by (rule sin_minus)
  then show ?thesis
    unfolding sine_blend by simp
qed

lemma sine_symmetric_sum:
  assumes "n \<noteq> 0"
  shows "sineInterpolate s n a b + sineInterpolate (n - s) n a b = a + b"
proof -
  define w where "w = sin (s / n * pi - pi / 2)"
  have f: "sineInterpolate s n a b = (b - a) * ((w + 1) / 2) + a"
    unfolding w_def by (rule sine_blend)
  have r: "sineInterpolate (n - s) n a b = (b - a) * ((1 - w) / 2) + a"
    unfolding w_def by (rule sine_blend_rev [OF assms])
  show ?thesis
    unfolding f r by (simp add: field_simps)
qed

lemma sine_symmetric_swap:
  assumes "n \<noteq> 0"
  shows "sineInterpolate s n a b = sineInterpolate (n - s) n b a"
proof -
  define w where "w = sin (s / n * pi - pi / 2)"
  have f: "sineInterpolate s n a b = (b - a) * ((w + 1) / 2) + a"
    unfolding w_def by (rule sine_blend)
  have r: "sineInterpolate (n - s) n b a = (a - b) * ((1 - w) / 2) + b"
    unfolding w_def by (rule sine_blend_rev [OF assms])
  show ?thesis
    unfolding f r by (simp add: field_simps)
qed

lemma sine_weight_mono:
  assumes "0 < n" "0 \<le> s" "s \<le> s'" "s' \<le> n"
  shows "(sin (s / n * pi - pi / 2) + 1) / 2 \<le> (sin (s' / n * pi - pi / 2) + 1) / 2"
proof -
  have d: "s / n \<le> s' / n"
    using assms by (simp add: divide_right_mono)
  have lo: "0 \<le> s / n" using assms by simp
  have hi: "s' / n \<le> 1" using assms by simp
  have "0 \<le> s / n * pi"
    using lo by (intro mult_nonneg_nonneg) simp_all
  then have 1: "- (pi / 2) \<le> s / n * pi - pi / 2"
    by linarith
  have "s / n * pi \<le> s' / n * pi"
    using d by (intro mult_right_mono) simp_all
  then have 2: "s / n * pi - pi / 2 \<le> s' / n * pi - pi / 2"
    by linarith
  have "s' / n * pi \<le> 1 * pi"
    using hi by (intro mult_right_mono) simp_all
  then have 3: "s' / n * pi - pi / 2 \<le> pi / 2"
    by linarith
  have "sin (s / n * pi - pi / 2) \<le> sin (s' / n * pi - pi / 2)"
    using 1 2 3 by (rule sin_monotone_2pi_le)
  then show ?thesis by simp
qed

text \<open>
  With the endpoints swapped in the second term the two values are equal, so their sum is
  not \<open>a + b\<close>: for \<open>s = 0\<close>, \<open>n = 2\<close>, \<open>a = 0\<close>, \<open>b = 255\<close> both terms are 0 and the
  sum misses \<open>a + b\<close> by 255.
\<close>

theorem sineInterpolate_symmetry_counterexample:
  "sineInterpolate 0 2 0 255 + sineInterpolate (2 - 0) 2 255 0 - (0 + 255) = - 255"
proof -
  have a: "(0::real) / 2 * pi - pi / 2 = - (pi / 2)" by simp
  have b: "((2::real) - 0) / 2 * pi - pi / 2 = pi / 2" by simp
  show ?thesis
    unfolding sine_blend a b by simp
qed

text \<open>
  Claim C7, as amended. For \<open>n > 0\<close> and \<open>0 \<le> s \<le> s' \<le> n\<close>, \<open>sineInterpolate\<close> is
  monotonic in the step (nondecreasing from \<open>s\<close> to \<open>s'\<close> when \<open>a \<le> b\<close>, nonincreasing when
  \<open>b \<le> a\<close>), and it is symmetric with the same endpoints in both terms:
  \<open>sineInterpolate(s, n, a, b) + sineInterpolate(n - s, n, a, b) = a + b\<close>; with the endpoints
  swapped, \<open>sineInterpolate(n - s, n, b, a)\<close> equals \<open>sineInterpolate(s, n, a, b)\<close>. Numbers are
  exact reals here.
\<close>

theorem sineInterpolate_monotone_symmetric:
  assumes "0 < n" and "0 \<le> s" and "s \<le> s'" and "s' \<le> n"
  shows "(a \<le> b \<longrightarrow> sineInterpolate s n a b \<le> sineInterpolate s' n a b)
       \<and> (b \<le> a \<longrightarrow> sineInterpolate s' n a b \<le> sineInterpolate s n a b)
       \<and> sineInterpolate s n a b + sineInterpolate (n - s) n a b = a + b
       \<and> sineInterpolate s n a b = sineInterpolate (n - s) n b a"
proof -
  have n: "n \<noteq> 0" using assms by simp
  let ?t = "(sin (s / n * pi - pi / 2) + 1) / 2"
  let ?t' = "(sin (s' / n * pi - pi / 2) + 1) / 2"
  have w: "?t \<le> ?t'"
    using assms by (rule sine_weight_mono)
  have up: "(b - a) * ?t + a \<le> (b - a) * ?t' + a" if "a \<le> b"
    using w that by (simp add: mult_left_mono)
  have down: "(b - a) * ?t' + a \<le> (b - a) * ?t + a" if "b \<le> a"
    using w that by (simp add: mult_left_mono_neg)
  show ?thesis
    using up down sine_symmetric_sum [OF n, of s a b] sine_symmetric_swap [OF n, of s a b]
    unfolding sine_blend [of s n a b] sine_blend [of s' n a b] by blast
qed

theorem sineInterpolate_monotone_symmetric_witness:
  "(0::real) < 2 \<and> (0::real) \<le> 0 \<and> (0::real) \<le> 2 \<and> (2::real) \<le> 2
   \<and> sineInterpolate 0 2 0 255 \<le> sineInterpolate 2 2 0 255
   \<and> sineInterpolate 0 2 0 255 + sineInterpolate (2 - 0) 2 0 255 = 0 + 255
   \<and> sineInterpolate 0 2 0 255 = sineInterpolate (2 - 0) 2 255 0"
  using sineInterpolate_monotone_symmetric [of 2 0 2 0 255] by simp

section \<open>Properties of the noise generators\<close>

lemma whiteNoiseLoop_map:
  "whiteNoiseLoop rnd m f fs = fs @ map (noiseFrame rnd) [f ..< nat \<lceil>m\<rceil>]"
proof (induction rnd m f fs rule: whiteNoiseLoop.induct)
  case (1 rnd m f fs)
  show ?case
  proof (cases "real f < m")
    case True
    then have "int f < \<lceil>m\<rceil>" by (simp add: less_ceiling_iff)
    then have lt: "f < nat \<lceil>m\<rceil>" by linarith
    have "whiteNoiseLoop rnd m f fs = whiteNoiseLoop rnd m (Suc f) (fs @ [noiseFrame rnd f])"
      using True by (subst whiteNoiseLoop.simps) simp
    also have "\<dots> = (fs @ [noiseFrame rnd f]) @ map (noiseFrame rnd) [Suc f ..< nat \<lceil>m\<rceil>]"
      using 1 True by simp
    also have "\<dots> = fs @ map (noiseFrame rnd) [f ..< nat \<lceil>m\<rceil>]"
      using lt by (simp add: upt_conv_Cons)
    finally show ?thesis .
  next
    case False
    then have "\<not> int f < \<lceil>m\<rceil>" by (simp add: less_ceiling_iff)
    then have "nat \<lceil>m\<rceil> \<le> f" by linarith
    then show ?thesis using False by (subst whiteNoiseLoop.simps) simp
  qed
qed

lemma whiteNoise_frames:
  "frames (whiteNoise rnd maxFrames) =
     map (noiseFrame rnd)
       [0 ..< nat \<lceil>case maxFrames of None \<Rightarrow> 20 | Some m \<Rightarrow> if m = 0 then 20 else m\<rceil>]"
  by (simp add: whiteNoise_def whiteNoiseLoop_map Let_def)

lemma map2_same: "map2 h xs (map g xs) = map (\<lambda>x. h x (g x)) xs"
  by (induction xs) simp_all

lemma noiseFrame_levels:
  "noiseFrame rnd f =
     join '','' (map2 (\<lambda>p v. getPixel None None (Some v) (Some v) (Some v) (Some (int p)))
                   [1 ..< 120] (map (\<lambda>p. \<lfloor>rnd (119 * f + (p - 1)) * 153\<rfloor>) [1 ..< 120]))"
proof -
  have "noisePixel rnd f =
      (\<lambda>p. getPixel None None (Some \<lfloor>rnd (119 * f + (p - 1)) * 153\<rfloor>)
             (Some \<lfloor>rnd (119 * f + (p - 1)) * 153\<rfloor>)
             (Some \<lfloor>rnd (119 * f + (p - 1)) * 153\<rfloor>) (Some (int p)))"
    by (rule ext) (simp add: noisePixel_def Let_def)
  then show ?thesis
    unfolding map2_same noiseFrame_def by simp
qed

lemma noise_level_range:
  assumes "random_ok rnd"
  shows "0 \<le> \<lfloor>rnd k * 153\<rfloor> \<and> \<lfloor>rnd k * 153\<rfloor> < 153"
proof -
  have r: "0 \<le> rnd k" "rnd k < 1"
    using assms by (simp_all add: random_ok_def)
  have "0 \<le> rnd k * 153" using r by simp
  moreover have "rnd k * 153 < 153" using r by simp
  ultimately show ?thesis
    by (simp add: floor_less_iff)
qed

lemma dodgyPixel_length: "length (frames (dodgyPixel dev rnd hiColor bgColor)) = 101"
  by (simp add: dodgyPixel_def Let_def length_concat dodgyBlink_def comp_def sum_list_triv)

text \<open>
  \<open>whiteNoise(5)\<close> has 5 frames, not 5 and a background frame; \<open>dodgyPixel\<close>, the one
  generator with a background frame, has no \<open>maxFrames\<close> and 101 frames.
\<close>

theorem noise_frames_counterexample:
  "length (frames (whiteNoise (\<lambda>k. 0) (Some 5))) = 5
   \<and> length (frames (whiteNoise (\<lambda>k. 0) (Some 5))) \<noteq> 5 + 1
   \<and> length (frames (dodgyPixel \<lparr>maxRow = 0, maxCol = 0, blankLeds = [], keyedLeds = [],
        ledIdByScanCode = (\<lambda>c. None)\<rparr> (\<lambda>k. 0) None None)) \<noteq> 5 + 1"
  by (simp add: whiteNoise_frames dodgyPixel_length)

text \<open>
  Claim C8, as amended. With \<open>maxFrames = 5\<close>, \<open>whiteNoise\<close> produces exactly 5 frames and no
  background frame; each frame is the 119 pixel commands of the pixels 1 to 119, and the
  three channels of each command are one gray level, an integer \<open>v\<close> with \<open>0 \<le> v < 153\<close>.
  \<open>dodgyPixel\<close> takes no \<open>maxFrames\<close>: it produces one background frame and 100 blink frames.
\<close>

theorem whiteNoise_five_frames:
  assumes "random_ok rnd"
  shows "(\<exists>vss. length vss = 5
            \<and> list_all (\<lambda>vs. length vs = 119 \<and> list_all (\<lambda>v. 0 \<le> v \<and> v < 153) vs) vss
            \<and> frames (whiteNoise rnd (Some 5)) =
                map (\<lambda>vs. join '','' (map2 (\<lambda>p v. getPixel None None (Some v) (Some v) (Some v) (Some (int p)))
                                         [1 ..< 120] vs)) vss)
       \<and> length (frames (dodgyPixel dev rnd hiColor bgColor)) = 1 + 100"
proof -
  define vss where "vss = map (\<lambda>f. map (\<lambda>p. \<lfloor>rnd (119 * f + (p - 1)) * 153\<rfloor>) [1 ..< 120]) [0 ..< 5]"
  have len: "length vss = 5"
    by (simp add: vss_def)
  have ok: "list_all (\<lambda>vs. length vs = 119 \<and> list_all (\<lambda>v. 0 \<le> v \<and> v < 153) vs) vss"
    unfolding vss_def list_all_iff using noise_level_range [OF assms] by auto
  have "frames (whiteNoise rnd (Some 5)) = map (noiseFrame rnd) [0 ..< 5]"
    by (simp add: whiteNoise_frames)
  also have "\<dots> = map (\<lambda>vs. join '','' (map2 (\<lambda>p v. getPixel None None (Some v) (Some v) (Some v) (Some (int p)))
                                         [1 ..< 120] vs)) vss"
    unfolding vss_def map_map comp_def noiseFrame_levels ..
  finally show ?thesis
    using len ok dodgyPixel_length [of dev rnd hiColor bgColor] by auto
qed

theorem whiteNoise_five_frames_witness:
  "random_ok (\<lambda>k. 1 / 2)
   \<and> length (frames (whiteNoise (\<lambda>k. 1 / 2) (Some 5))) = 5
   \<and> length (frames (dodgyPixel \<lparr>maxRow = 1, maxCol = 2, blankLeds = [], keyedLeds = [],
        ledIdByScanCode = (\<lambda>c. None)\<rparr> (\<lambda>k. 1 / 2) None None)) = 1 + 100"
proof -
  have h: "random_ok (\<lambda>k. 1 / 2)"
    by (simp add: random_ok_def)
  show ?thesis
    using h whiteNoise_five_frames [OF h, of "\<lparr>maxRow = 1, maxCol = 2, blankLeds = [], keyedLeds = [],
        ledIdByScanCode = (\<lambda>c. None)\<rparr>" None None]
    by auto
qed

section \<open>Properties of the frame sort\<close>

lemma below_ten_cases:
  "d < 10 \<Longrightarrow> d = 0 \<or> d = 1 \<or> d = 2 \<or> d = 3 \<or> d = 4 \<or> d = 5 \<or> d = 6 \<or> d = 7 \<or> d = 8 \<or> d = (9::nat)"
  by arith

lemma digit_val_digit_char: "d < 10 \<Longrightarrow> digit_val (digit_char d) = d"
  using below_ten_cases [of d] by (auto simp: digit_val_def digit_char_def)

lemma is_digit_digit_char: "d < 10 \<Longrightarrow> is_digit (digit_char d)"
  using below_ten_cases [of d] by (auto simp: is_digit_def digit_char_def)

lemma show_nat_all_digits: "list_all is_digit (show_nat n)"
proof (induction n rule: show_nat.induct)
  case (1 n)
  show ?case
  proof (cases "n < 10")
    case True
    then show ?thesis by (simp add: show_nat_digit is_digit_digit_char)
  next
    case False
    then have "list_all is_digit (show_nat (n div 10))" using 1 by simp
    moreover have "is_digit (digit_char (n mod 10))" by (simp add: is_digit_digit_char)
    ultimately show ?thesis using False by (simp add: show_nat_step)
  qed
qed

lemma show_nat_not_empty: "show_nat n \<noteq> []"
  by (subst show_nat.simps) simp

lemma parse_nat_snoc: "parse_nat (ds @ [c]) = 10 * parse_nat ds + digit_val c"
  by (simp add: parse_nat_def)

lemma parse_nat_show_nat: "parse_nat (show_nat n) = n"
proof (induction n rule: show_nat.induct)
  case (1 n)
  show ?case
  proof (cases "n < 10")
    case True
    then show ?thesis by (simp add: show_nat_digit parse_nat_def digit_val_digit_char)
  next
    case False
    then have "parse_nat (show_nat (n div 10)) = n div 10" using 1 by simp
    then show ?thesis using False
      by (simp add: show_nat_step parse_nat_snoc digit_val_digit_char)
  qed
qed

lemma takeWhile_stop:
  "list_all P xs \<Longrightarrow> \<not> P y \<Longrightarrow> takeWhile P (xs @ y # ys) = xs"
  by (induction xs) simp_all

lemma dropWhile_stop:
  "list_all P xs \<Longrightarrow> \<not> P y \<Longrightarrow> dropWhile P (xs @ y # ys) = y # ys"
  by (induction xs) simp_all

lemma bracket_not_digit: "\<not> is_digit CHR '']''"
  by (simp add: is_digit_def)

lemma match_id_command: "match_id (''P['' @ show_nat p @ '']'' @ rest) = Some (show_nat p)"
proof -
  have t: "takeWhile is_digit (show_nat p @ CHR '']'' # rest) = show_nat p"
    by (rule takeWhile_stop [OF show_nat_all_digits bracket_not_digit])
  have d: "dropWhile is_digit (show_nat p @ CHR '']'' # rest) = CHR '']'' # rest"
    by (rule dropWhile_stop [OF show_nat_all_digits bracket_not_digit])
  show ?thesis
    by (simp add: t d show_nat_not_empty Let_def)
qed

lemma getPixel_id_only:
  "getPixel None None r g b (Some (int p)) =
     ''P['' @ show_nat p @ '']'' @ (''('' @ join '','' (map show_int [truthy_or_0 r, truthy_or_0 g, truthy_or_0 b]) @ '')'')"
  by (simp add: getPixel_def show_int_def)

lemma pixelId_getPixel: "pixelId (getPixel None None r g b (Some (int p))) = Some (int p)"
  unfolding getPixel_id_only pixelId_def match_id_command
  by (simp add: parse_nat_show_nat)

lemma set_insert_by: "set (insert_by cmp x ys) = insert x (set ys)"
  by (induction ys) auto

lemma set_js_sort: "set (js_sort cmp xs) = set xs"
  by (induction xs) (simp_all add: js_sort_def set_insert_by)

lemma length_insert_by: "length (insert_by cmp x ys) = Suc (length ys)"
  by (induction ys) auto

lemma length_js_sort: "length (js_sort cmp xs) = length xs"
  by (induction xs) (simp_all add: js_sort_def length_insert_by)

lemma sorted_insert_by:
  "sorted (map k ys) \<Longrightarrow> sorted (map k (insert_by (\<lambda>a b. k a - k b) x ys))"
  for k :: "'a \<Rightarrow> int"
  by (induction ys) (auto simp: set_insert_by)

lemma sorted_js_sort: "sorted (map k (js_sort (\<lambda>a b. k a - k b) xs))"
  for k :: "'a \<Rightarrow> int"
  by (induction xs) (simp_all add: js_sort_def sorted_insert_by)

section \<open>Properties of the vertical pulse with tracers\<close>

lemma pixelId_getPixel_nonneg:
  "0 \<le> a \<Longrightarrow> pixelId (getPixel None None r g b (Some a)) = Some a"
  using pixelId_getPixel [of r g b "nat a"] by simp

lemma sortPixelFrame_sorted:
  assumes "list_all (\<lambda>a. pixelId a \<noteq> None) frame"
  shows "\<exists>fr. sortPixelFrame frame = Some fr \<and> length fr = length frame
           \<and> list_all (\<lambda>a. pixelId a \<noteq> None) fr
           \<and> sorted (map (\<lambda>a. the (pixelId a)) fr)"
proof (cases "length frame \<le> 1")
  case True
  then have "frame = [] \<or> (\<exists>x. frame = [x])"
    by (cases frame) auto
  then have "sorted (map (\<lambda>a. the (pixelId a)) frame)"
    by auto
  then show ?thesis
    using True assms by (simp add: sortPixelFrame_def)
next
  case False
  let ?fr = "js_sort (\<lambda>a b. the (pixelId a) - the (pixelId b)) frame"
  have "sortPixelFrame frame = Some ?fr"
    using False assms by (simp add: sortPixelFrame_def)
  moreover have "list_all (\<lambda>a. pixelId a \<noteq> None) ?fr"
    using assms by (simp add: list_all_iff set_js_sort)
  moreover have "sorted (map (\<lambda>a. the (pixelId a)) ?fr)"
    by (rule sorted_js_sort)
  ultimately show ?thesis
    by (simp add: length_js_sort)
qed

lemma side_pair_rotate1:
  "list_all2 side_pair lt rt \<Longrightarrow> list_all2 side_pair (rotate1 lt) (rotate1 rt)"
  by (cases lt; cases rt) (auto intro: list_all2_appendI)

lemma side_pair_initial:
  "list_all2 side_pair (map Some LEFT_BASE_LEDS @ replicate n None)
                       (map Some RIGHT_BASE_LEDS @ replicate n None)"
proof (rule list_all2_appendI)
  show "list_all2 side_pair (map Some LEFT_BASE_LEDS) (map Some RIGHT_BASE_LEDS)"
    by (simp add: LEFT_BASE_LEDS_def RIGHT_BASE_LEDS_def side_pair_def)
  show "list_all2 side_pair (replicate n None) (replicate n None)"
    by (simp add: list_all2_conv_all_nth side_pair_def)
qed

lemma scaledPixel_id: "0 \<le> a \<Longrightarrow> pixelId (scaledPixel c x (Some a)) = Some a"
  by (simp add: scaledPixel_def pixelId_getPixel_nonneg)

lemma itemPixel_id: "0 \<le> a \<Longrightarrow> pixelId (itemPixel None None c (Some a)) = Some a"
  by (simp add: itemPixel_def pixelId_getPixel_nonneg)

lemma tracerCommands_ids:
  assumes "list_all2 side_pair lt rt"
  shows "list_all (\<lambda>a. pixelId a \<noteq> None) (tracerCommands bc lt rt)"
proof -
  have len: "length lt = length rt"
    using assms by (rule list_all2_lengthD)
  have "list_all (\<lambda>a. pixelId a \<noteq> None)
          (case js_nth lt j of
             None \<Rightarrow> []
           | Some l \<Rightarrow>
               (let x = (if int j > int (length lt) - 4 then 1 else 0.05)
                in scaledPixel bc x (Some l) #
                   (if l \<noteq> 94 \<and> l \<noteq> 110 then [scaledPixel bc x (js_nth rt j)] else [])))"
    if j: "j < length lt" for j
  proof -
    have p: "side_pair (lt ! j) (rt ! j)"
      using assms j by (rule list_all2_nthD)
    have n: "js_nth lt j = lt ! j" "js_nth rt j = rt ! j"
      using j len by (simp_all add: js_nth_def)
    show ?thesis
      using p unfolding n side_pair_def
      by (auto simp: Let_def scaledPixel_id)
  qed
  then show ?thesis
    unfolding tracerCommands_def list_all_iff by auto
qed

lemma tracerFrames_sorted:
  "length tops \<le> length bots \<Longrightarrow> list_all2 side_pair lt rt \<Longrightarrow>
   \<exists>fs. tracerFrames tops bots lt rt = Some fs \<and> length fs = length tops \<and> list_all frame_sorted fs"
proof (induction tops bots lt rt rule: tracerFrames.induct)
  case (1 botColors ltSide rtSide)
  show ?case by simp
next
  case (2 topColor topColors ltSide rtSide)
  then show ?case by simp
next
  case (3 topColor topColors botColor botColors ltSide rtSide)
  let ?frame = "[itemPixel None None topColor (Some 1), itemPixel None None topColor (Some 87)] @
             tracerCommands botColor ltSide rtSide"
  have "list_all (\<lambda>a. pixelId a \<noteq> None) ?frame"
    using tracerCommands_ids [OF "3.prems"(2), of botColor] by (simp add: itemPixel_id)
  then obtain fr where fr: "sortPixelFrame ?frame = Some fr"
    and ok: "list_all (\<lambda>a. pixelId a \<noteq> None) fr" "sorted (map (\<lambda>a. the (pixelId a)) fr)"
    using sortPixelFrame_sorted [of ?frame] by blast
  have "length topColors \<le> length botColors"
    using "3.prems"(1) by simp
  moreover have "list_all2 side_pair (rotate1 ltSide) (rotate1 rtSide)"
    using "3.prems"(2) by (rule side_pair_rotate1)
  ultimately obtain fs where fs: "tracerFrames topColors botColors (rotate1 ltSide) (rotate1 rtSide) = Some fs"
    and rest: "length fs = length topColors" "list_all frame_sorted fs"
    using "3.IH" [OF fr] by blast
  have "frame_sorted fr"
    using ok by (simp add: frame_sorted_def)
  then show ?case
    using fr fs rest by simp
qed

lemma length_defaultColors: "2 \<le> length (defaultColors colors)"
  by (auto simp: defaultColors_def split: list.splits)

lemma js_round_ge: "real_of_int k \<le> x \<Longrightarrow> k \<le> js_round x"
  unfolding js_round_def by linarith

lemma tracerSync_steps:
  assumes "17 \<le> s" and "0 < c"
  shows "17 \<le> snd (tracerSync s c)"
proof -
  define cl where "cl = \<lfloor>(real c * s) / 17\<rfloor>"
  define len where "len = 17 + nat \<lceil>((real c * s) - (17 * real_of_int cl)) / real_of_int cl\<rceil>"
  have eq: "tracerSync s c =
     (if js_rem (real c * s) 17 > 0
      then (nat \<lceil>((real c * s) - (17 * real_of_int cl)) / real_of_int cl\<rceil>,
            if real len * real_of_int cl > s * real c
            then real_of_int (js_round (real len * real_of_int cl / real c))
            else s)
      else (0, s))"
    unfolding tracerSync_def Let_def cl_def [symmetric] len_def [symmetric] ..
  have "17 \<le> real_of_int (js_round (real len * real_of_int cl / real c))"
    if gt: "real len * real_of_int cl > s * real c"
  proof -
    have "s < real len * real_of_int cl / real c"
      using gt assms(2) by (simp add: pos_less_divide_eq)
    then have "real_of_int 17 \<le> real len * real_of_int cl / real c"
      using assms(1) by simp
    then have "17 \<le> js_round (real len * real_of_int cl / real c)"
      by (rule js_round_ge)
    then show ?thesis by simp
  qed
  then show ?thesis
    unfolding eq using assms(1) by simp
qed

lemma verticalPulseFrames_sorted:
  "\<exists>fs. verticalPulseFrames stepsPerColor colors = Some fs \<and> fs \<noteq> [] \<and> list_all frame_sorted fs"
proof -
  define spc where "spc = (case stepsPerColor of None \<Rightarrow> 32 | Some n \<Rightarrow> n)"
  define cvs where "cvs = defaultColors colors"
  define s where "s = (if 17 > spc then 17 else spc)"
  obtain addSteps s1 where sync: "tracerSync s (length cvs) = (addSteps, s1)"
    by (cases "tracerSync s (length cvs)")
  have c: "2 \<le> length cvs"
    unfolding cvs_def by (rule length_defaultColors)
  have s17: "17 \<le> s" by (simp add: s_def)
  have cpos: "0 < length cvs" using c by linarith
  have "17 \<le> snd (tracerSync s (length cvs))"
    using s17 cpos by (rule tracerSync_steps)
  then have s1: "17 \<le> s1" using sync by simp
  then have s1': "2 \<le> s1" by simp
  have fl: "17 \<le> nat \<lfloor>s1\<rfloor>"
    using s1 by (simp add: le_nat_iff le_floor_iff)
  obtain tops where tops: "multiColorBleed s1 (Some sineInterpolate) (map to_color cvs) = Some tops"
    and ltops: "length tops = length cvs * nat \<lfloor>s1\<rfloor>"
    using multiColorBleed_result [of s1 "Some sineInterpolate" "map to_color cvs"] s1' by auto
  obtain bots where bots: "multiColorBleed s1 (Some sineInterpolate) (map to_color (rotate1 cvs)) = Some bots"
    and lbots: "length bots = length cvs * nat \<lfloor>s1\<rfloor>"
    using multiColorBleed_result [of s1 "Some sineInterpolate" "map to_color (rotate1 cvs)"] s1' by auto
  have le: "length tops \<le> length bots"
    using ltops lbots by simp
  obtain fs where fs: "tracerFrames tops bots (map Some LEFT_BASE_LEDS @ replicate addSteps None)
                          (map Some RIGHT_BASE_LEDS @ replicate addSteps None) = Some fs"
    and lfs: "length fs = length tops" and ok: "list_all frame_sorted fs"
    using tracerFrames_sorted [OF le side_pair_initial [of addSteps]] by blast
  have "0 < nat \<lfloor>s1\<rfloor>"
    using fl by linarith
  then have "0 < length cvs * nat \<lfloor>s1\<rfloor>"
    using cpos by (rule mult_pos_pos [rotated])
  then have ne: "fs \<noteq> []"
    using lfs ltops by auto
  have "verticalPulseFrames stepsPerColor colors = Some fs"
    unfolding verticalPulseFrames_def spc_def [symmetric] cvs_def [symmetric] Let_def
      s_def [symmetric] sync
    using tops bots fs by simp
  then show ?thesis
    using ne ok by simp
qed

lemma mset_insert_by: "mset (insert_by cmp x ys) = add_mset x (mset ys)"
  by (induction ys) auto

lemma mset_js_sort: "mset (js_sort cmp xs) = mset xs"
  by (induction xs) (simp_all add: js_sort_def mset_insert_by)

lemma sortPixelFrame_mset: "sortPixelFrame frame = Some fr \<Longrightarrow> mset fr = mset frame"
  by (auto simp: sortPixelFrame_def mset_js_sort split: if_splits)

lemma tracerFrames_pushed:
  "tracerFrames tops bots lt rt = Some fs \<Longrightarrow>
   \<exists>ps. tracerPushed tops bots lt rt = Some ps \<and> list_all2 (\<lambda>frame p. mset frame = mset p) fs ps"
proof (induction tops bots lt rt arbitrary: fs rule: tracerFrames.induct)
  case (1 botColors ltSide rtSide)
  then show ?case by simp
next
  case (2 topColor topColors ltSide rtSide)
  then show ?case by simp
next
  case (3 topColor topColors botColor botColors ltSide rtSide)
  let ?frame = "[itemPixel None None topColor (Some 1), itemPixel None None topColor (Some 87)] @
             tracerCommands botColor ltSide rtSide"
  from "3.prems" obtain fr rest where fr: "sortPixelFrame ?frame = Some fr"
    and rest: "tracerFrames topColors botColors (rotate1 ltSide) (rotate1 rtSide) = Some rest"
    and fs: "fs = fr # rest"
    by (auto split: option.splits)
  from "3.IH" [OF fr rest] obtain ps where
    ps: "tracerPushed topColors botColors (rotate1 ltSide) (rotate1 rtSide) = Some ps"
    and rel: "list_all2 (\<lambda>frame p. mset frame = mset p) rest ps"
    by blast
  have "mset fr = mset ?frame"
    using fr by (rule sortPixelFrame_mset)
  then show ?case
    using ps rel fs by simp
qed

lemma list_all2_and_left:
  "list_all2 P xs ys \<Longrightarrow> list_all Q xs \<Longrightarrow> list_all2 (\<lambda>x y. P x y \<and> Q x) xs ys"
  by (induction rule: list_all2_induct) simp_all

lemma tracerCommands_frameIds:
  assumes "list_all2 side_pair lt rt"
  shows "frameIds (tracerCommands bc lt rt) = concat (map (\<lambda>(l, r). pairIds l r) (zip lt rt))"
proof -
  have len: "length lt = length rt"
    using assms by (rule list_all2_lengthD)
  have one: "frameIds
          (case js_nth lt j of
             None \<Rightarrow> []
           | Some l \<Rightarrow>
               (let x = (if int j > int (length lt) - 4 then 1 else 0.05)
                in scaledPixel bc x (Some l) #
                   (if l \<noteq> 94 \<and> l \<noteq> 110 then [scaledPixel bc x (js_nth rt j)] else [])))
        = pairIds (lt ! j) (rt ! j)"
    if j: "j < length lt" for j
  proof -
    have p: "side_pair (lt ! j) (rt ! j)"
      using assms j by (rule list_all2_nthD)
    have n: "js_nth lt j = lt ! j" "js_nth rt j = rt ! j"
      using j len by (simp_all add: js_nth_def)
    show ?thesis
      using p unfolding n side_pair_def frameIds_def pairIds_def
      by (auto simp: Let_def scaledPixel_id)
  qed
  have "frameIds (tracerCommands bc lt rt) =
      concat (map (\<lambda>j. pairIds (lt ! j) (rt ! j)) [0 ..< length lt])"
    unfolding tracerCommands_def frameIds_def map_concat
    using one by (auto simp: frameIds_def intro!: arg_cong [where f = concat])
  also have "map (\<lambda>j. pairIds (lt ! j) (rt ! j)) [0 ..< length lt] =
      map (\<lambda>(l, r). pairIds l r) (zip lt rt)"
    using len by (intro nth_equalityI) simp_all
  finally show ?thesis .
qed

lemma zip_rotate1:
  "length xs = length ys \<Longrightarrow> zip (rotate1 xs) (rotate1 ys) = rotate1 (zip xs ys)"
  by (cases xs; cases ys) simp_all

lemma mset_concat_rotate1: "mset (concat (map f (rotate1 xs))) = mset (concat (map f xs))"
  by (cases xs) simp_all

lemma sort_cong_mset: "mset xs = mset ys \<Longrightarrow> sort xs = sort ys"
  for xs ys :: "int list"
  by (rule properties_for_sort) simp_all

lemma sorted_eq_sort:
  "sorted xs \<Longrightarrow> mset xs = mset ys \<Longrightarrow> xs = sort ys"
  for xs ys :: "int list"
  using properties_for_sort [of xs ys] by simp

lemma ringIds_rotate1:
  "length lt = length rt \<Longrightarrow> mset (ringIds (rotate1 lt) (rotate1 rt)) = mset (ringIds lt rt)"
  by (simp add: ringIds_def zip_rotate1 mset_concat_rotate1)

lemma ringIds_initial:
  "ringIds (map Some LEFT_BASE_LEDS @ replicate n None) (map Some RIGHT_BASE_LEDS @ replicate n None) =
     [94, 95, 93, 96, 92, 97, 91, 98, 90, 99, 89, 100, 88, 101, 119, 102, 118, 103, 117, 104, 116,
      105, 115, 106, 114, 107, 113, 108, 112, 109, 111, 110]"
proof -
  have "concat (map (\<lambda>(l, r). pairIds l r) (zip (replicate n None) (replicate n None))) = []"
    by (simp add: pairIds_def zip_replicate)
  then show ?thesis
    by (simp add: ringIds_def LEFT_BASE_LEDS_def RIGHT_BASE_LEDS_def pairIds_def)
qed


lemma sort_base_ids:
  "sort (1 # 87 #
     [94, 95, 93, 96, 92, 97, 91, 98, 90, 99, 89, 100, 88, 101, 119, 102, 118, 103, 117, 104, 116,
      105, 115, 106, 114, 107, 113, 108, 112, 109, 111, 110 :: int]) = 1 # 87 # [88 .. 119]"
  by (simp add: upto_rec_numeral)

lemma frameIds_pushed:
  assumes "list_all2 side_pair lt rt"
  shows "frameIds ([itemPixel None None tc (Some 1), itemPixel None None tc (Some 87)] @
             tracerCommands bc lt rt) = 1 # 87 # ringIds lt rt"
  using tracerCommands_frameIds [OF assms, of bc]
  by (simp add: frameIds_def ringIds_def itemPixel_id)

lemma tracerFrames_ids:
  "tracerFrames tops bots lt rt = Some fs \<Longrightarrow> list_all2 side_pair lt rt \<Longrightarrow>
   mset (ringIds lt rt) = mset B \<Longrightarrow> list_all frame_sorted fs \<Longrightarrow>
   list_all (\<lambda>frame. frameIds frame = sort (1 # 87 # B)) fs"
proof (induction tops bots lt rt arbitrary: fs rule: tracerFrames.induct)
  case (1 botColors ltSide rtSide)
  then show ?case by simp
next
  case (2 topColor topColors ltSide rtSide)
  then show ?case by simp
next
  case (3 topColor topColors botColor botColors ltSide rtSide)
  let ?frame = "[itemPixel None None topColor (Some 1), itemPixel None None topColor (Some 87)] @
             tracerCommands botColor ltSide rtSide"
  from "3.prems"(1) obtain fr rest where fr: "sortPixelFrame ?frame = Some fr"
    and rest: "tracerFrames topColors botColors (rotate1 ltSide) (rotate1 rtSide) = Some rest"
    and fs: "fs = fr # rest"
    by (auto split: option.splits)
  have len: "length ltSide = length rtSide"
    using "3.prems"(2) by (rule list_all2_lengthD)
  have sp: "list_all2 side_pair (rotate1 ltSide) (rotate1 rtSide)"
    using "3.prems"(2) by (rule side_pair_rotate1)
  have ms: "mset (ringIds (rotate1 ltSide) (rotate1 rtSide)) = mset B"
    using ringIds_rotate1 [OF len] "3.prems"(3) by simp
  have so: "frame_sorted fr" "list_all frame_sorted rest"
    using "3.prems"(4) fs by simp_all
  have ih: "list_all (\<lambda>frame. frameIds frame = sort (1 # 87 # B)) rest"
    using "3.IH" [OF fr rest sp ms so(2)] .
  have "mset fr = mset ?frame"
    using fr by (rule sortPixelFrame_mset)
  then have "image_mset (\<lambda>a. the (pixelId a)) (mset fr) = image_mset (\<lambda>a. the (pixelId a)) (mset ?frame)"
    by (rule arg_cong)
  then have "mset (frameIds fr) = mset (frameIds ?frame)"
    unfolding frameIds_def mset_map .
  also have "\<dots> = mset (1 # 87 # B)"
    unfolding frameIds_pushed [OF "3.prems"(2)] using "3.prems"(3) by simp
  finally have m: "mset (frameIds fr) = mset (1 # 87 # B)" .
  have "sorted (frameIds fr)"
    using so(1) by (simp add: frame_sorted_def frameIds_def)
  then have "frameIds fr = sort (1 # 87 # B)"
    using m by (rule sorted_eq_sort)
  then show ?case
    using ih fs by simp
qed



lemma tracerPushed_hd:
  "tracerPushed (t # ts) (b # bs) lt rt = Some ps \<Longrightarrow>
   hd ps = [itemPixel None None t (Some 1), itemPixel None None t (Some 87)] @ tracerCommands b lt rt"
  by (auto split: option.splits)

lemma verticalPulse_unfold:
  "\<exists>addSteps tops bots.
     verticalPulseFrames stepsPerColor colors =
       tracerFrames tops bots (map Some LEFT_BASE_LEDS @ replicate addSteps None)
         (map Some RIGHT_BASE_LEDS @ replicate addSteps None)
   \<and> verticalPulsePushed stepsPerColor colors =
       tracerPushed tops bots (map Some LEFT_BASE_LEDS @ replicate addSteps None)
         (map Some RIGHT_BASE_LEDS @ replicate addSteps None)
   \<and> tops \<noteq> [] \<and> length tops \<le> length bots"
proof -
  define spc where "spc = (case stepsPerColor of None \<Rightarrow> 32 | Some n \<Rightarrow> n)"
  define cvs where "cvs = defaultColors colors"
  define s where "s = (if 17 > spc then 17 else spc)"
  obtain addSteps s1 where sync: "tracerSync s (length cvs) = (addSteps, s1)"
    by (cases "tracerSync s (length cvs)")
  have c: "2 \<le> length cvs"
    unfolding cvs_def by (rule length_defaultColors)
  have s17: "17 \<le> s" by (simp add: s_def)
  have cpos: "0 < length cvs" using c by linarith
  have "17 \<le> snd (tracerSync s (length cvs))"
    using s17 cpos by (rule tracerSync_steps)
  then have s1: "17 \<le> s1" using sync by simp
  then have s1': "2 \<le> s1" by simp
  have fl: "17 \<le> nat \<lfloor>s1\<rfloor>"
    using s1 by (simp add: le_nat_iff le_floor_iff)
  obtain tops where tops: "multiColorBleed s1 (Some sineInterpolate) (map to_color cvs) = Some tops"
    and ltops: "length tops = length cvs * nat \<lfloor>s1\<rfloor>"
    using multiColorBleed_result [of s1 "Some sineInterpolate" "map to_color cvs"] s1' by auto
  obtain bots where bots: "multiColorBleed s1 (Some sineInterpolate) (map to_color (rotate1 cvs)) = Some bots"
    and lbots: "length bots = length cvs * nat \<lfloor>s1\<rfloor>"
    using multiColorBleed_result [of s1 "Some sineInterpolate" "map to_color (rotate1 cvs)"] s1' by auto
  have le: "length tops \<le> length bots"
    using ltops lbots by simp
  have "0 < nat \<lfloor>s1\<rfloor>"
    using fl by linarith
  then have "0 < length cvs * nat \<lfloor>s1\<rfloor>"
    using cpos by (rule mult_pos_pos [rotated])
  then have ne: "tops \<noteq> []"
    using ltops by auto
  have f: "verticalPulseFrames stepsPerColor colors =
      tracerFrames tops bots (map Some LEFT_BASE_LEDS @ replicate addSteps None)
        (map Some RIGHT_BASE_LEDS @ replicate addSteps None)"
    unfolding verticalPulseFrames_def spc_def [symmetric] cvs_def [symmetric] Let_def
      s_def [symmetric] sync
    using tops bots by simp
  have p: "verticalPulsePushed stepsPerColor colors =
      tracerPushed tops bots (map Some LEFT_BASE_LEDS @ replicate addSteps None)
        (map Some RIGHT_BASE_LEDS @ replicate addSteps None)"
    unfolding verticalPulsePushed_def spc_def [symmetric] cvs_def [symmetric] Let_def
      s_def [symmetric] sync
    using tops bots by simp
  show ?thesis
    using f p ne le by blast
qed

text \<open>
  Claim C9. For every step count and all colours, \<open>verticalPulseWithTracers\<close> returns an
  animation, with at least one frame. Every frame is the comma-joined string of a list of
  pixel commands that holds the commands pushed to that frame, each as many times as it was
  pushed, and nothing else; every command of it carries a numeric pixel identifier, and the
  commands are in nondecreasing order of that identifier, as \<open>sortPixelFrame\<close> leaves them.
  The identifiers of a frame are 1, 87, 88, \<dots>, 119 in this order: no two commands of a
  frame have the same identifier, so the order does not depend on how the sort treats equal
  elements. As pushed, the commands of the first frame are not in this order.
\<close>

theorem verticalPulse_frames_sorted:
  "\<exists>fs pushed. verticalPulseFrames stepsPerColor colors = Some fs
      \<and> verticalPulsePushed stepsPerColor colors = Some pushed
      \<and> verticalPulseWithTracers stepsPerColor colors =
          Some \<lparr>settings = ''framedelay:5, framestretch, loop, replace:all, pfunc:interp'',
                type = ''animation'',
                frames = map (join '','') fs\<rparr>
      \<and> fs \<noteq> []
      \<and> list_all2 (\<lambda>frame p. mset frame = mset p \<and> frame_sorted frame
                        \<and> frameIds frame = 1 # 87 # [88 .. 119]) fs pushed
      \<and> frameIds (hd pushed) =
          [1, 87, 94, 95, 93, 96, 92, 97, 91, 98, 90, 99, 89, 100, 88, 101, 119, 102, 118, 103,
           117, 104, 116, 105, 115, 106, 114, 107, 113, 108, 112, 109, 111, 110]"
proof -
  obtain addSteps tops bots where
    f: "verticalPulseFrames stepsPerColor colors =
       tracerFrames tops bots (map Some LEFT_BASE_LEDS @ replicate addSteps None)
         (map Some RIGHT_BASE_LEDS @ replicate addSteps None)"
    and p: "verticalPulsePushed stepsPerColor colors =
       tracerPushed tops bots (map Some LEFT_BASE_LEDS @ replicate addSteps None)
         (map Some RIGHT_BASE_LEDS @ replicate addSteps None)"
    and ne: "tops \<noteq> []" and le: "length tops \<le> length bots"
    using verticalPulse_unfold [of stepsPerColor colors] by blast
  let ?lt = "map Some LEFT_BASE_LEDS @ replicate addSteps None"
  let ?rt = "map Some RIGHT_BASE_LEDS @ replicate addSteps None"
  have sp: "list_all2 side_pair ?lt ?rt"
    by (rule side_pair_initial)
  obtain fs where fs: "tracerFrames tops bots ?lt ?rt = Some fs"
    and lfs: "length fs = length tops" and ok: "list_all frame_sorted fs"
    using tracerFrames_sorted [OF le sp] by blast
  obtain ps where ps: "tracerPushed tops bots ?lt ?rt = Some ps"
    and rel: "list_all2 (\<lambda>frame p. mset frame = mset p) fs ps"
    using tracerFrames_pushed [OF fs] by blast
  have "mset (ringIds ?lt ?rt) = mset (ringIds ?lt ?rt)" ..
  from tracerFrames_ids [OF fs sp this ok]
  have ids: "list_all (\<lambda>frame. frameIds frame = 1 # 87 # [88 .. 119]) fs"
    unfolding ringIds_initial sort_base_ids .
  have "list_all (\<lambda>frame. frame_sorted frame \<and> frameIds frame = 1 # 87 # [88 .. 119]) fs"
    using ok ids by (simp add: list_all_iff)
  with rel have all: "list_all2 (\<lambda>frame p. mset frame = mset p \<and>
      (frame_sorted frame \<and> frameIds frame = 1 # 87 # [88 .. 119])) fs ps"
    by (rule list_all2_and_left)
  have fne: "fs \<noteq> []"
    using lfs ne by auto
  obtain t ts where t: "tops = t # ts"
    using ne by (cases tops) auto
  obtain b bs where b: "bots = b # bs"
    using le t by (cases bots) auto
  have "hd ps = [itemPixel None None t (Some 1), itemPixel None None t (Some 87)] @
      tracerCommands b ?lt ?rt"
    using ps unfolding t b by (rule tracerPushed_hd)
  then have hd: "frameIds (hd ps) = 1 # 87 # ringIds ?lt ?rt"
    using frameIds_pushed [OF sp, of t b] by simp
  show ?thesis
    using f p fs ps fne all hd
    by (simp add: verticalPulseWithTracers_def ringIds_initial)
qed

section \<open>Every generator returns an animation\<close>

lemma those_map_Some:
  "(\<And>x. x \<in> set xs \<Longrightarrow> \<exists>y. f x = Some y) \<Longrightarrow>
   \<exists>ys. those (map f xs) = Some ys \<and> length ys = length xs"
proof (induction xs)
  case Nil
  show ?case by simp
next
  case (Cons x xs)
  obtain y where y: "f x = Some y" using Cons.prems [of x] by auto
  obtain ys where "those (map f xs) = Some ys" "length ys = length xs"
    using Cons.IH Cons.prems by auto
  then show ?case using y by simp
qed

lemma those_all_Some:
  "(\<And>x. x \<in> set xs \<Longrightarrow> x \<noteq> None) \<Longrightarrow> \<exists>ys. those xs = Some ys \<and> length ys = length xs"
  using those_map_Some [of xs id] by auto

lemma tokens_1: "settings_tokens ''framedelay:1, loop, replace:all'' = [''framedelay:1'', ''loop'', ''replace:all'']"
  by (simp add: settings_tokens_def)

lemma tokens_2:
  "settings_tokens ''framedelay:2, framestretch, loop, replace:all, pfunc:interp'' =
     [''framedelay:2'', ''framestretch'', ''loop'', ''replace:all'', ''pfunc:interp'']"
  by (simp add: settings_tokens_def)

lemma tokens_3:
  "settings_tokens ''framedelay:3, framestretch, loop, replace:all, pfunc:interp'' =
     [''framedelay:3'', ''framestretch'', ''loop'', ''replace:all'', ''pfunc:interp'']"
  by (simp add: settings_tokens_def)

lemma tokens_5:
  "settings_tokens ''framedelay:5, framestretch, loop, replace:all, pfunc:interp'' =
     [''framedelay:5'', ''framestretch'', ''loop'', ''replace:all'', ''pfunc:interp'']"
  by (simp add: settings_tokens_def)

lemma tokens_10:
  "settings_tokens ''framedelay:10, framestretch, loop, replace:all, pfunc:interp'' =
     [''framedelay:10'', ''framestretch'', ''loop'', ''replace:all'', ''pfunc:interp'']"
  by (simp add: settings_tokens_def)

lemma tokens_10_plain:
  "settings_tokens ''framedelay:10, framestretch, loop, replace:all'' =
     [''framedelay:10'', ''framestretch'', ''loop'', ''replace:all'']"
  by (simp add: settings_tokens_def)

lemma tokens_5_plain:
  "settings_tokens ''framedelay:5, loop, replace:all'' = [''framedelay:5'', ''loop'', ''replace:all'']"
  by (simp add: settings_tokens_def)

lemma tokens_5_interp:
  "settings_tokens ''framedelay:5, loop, replace:all, pfunc:interp'' =
     [''framedelay:5'', ''loop'', ''replace:all'', ''pfunc:interp'']"
  by (simp add: settings_tokens_def)

lemmas settings_tokens_simps =
  tokens_1 tokens_2 tokens_3 tokens_5 tokens_10 tokens_10_plain tokens_5_plain tokens_5_interp

lemma dodgyPixel_ok: "animation_ok (dodgyPixel dev rnd hiColor bgColor)"
  by (simp add: animation_ok_def animation_header_ok_def dodgyPixel_def Let_def tokens_1)

lemma whiteNoise_header: "animation_header_ok (whiteNoise rnd maxFrames)"
  by (simp add: animation_header_ok_def whiteNoise_def Let_def tokens_1)

lemma whiteNoise_empty:
  "frames (whiteNoise rnd maxFrames) = [] \<longleftrightarrow> (\<exists>m. maxFrames = Some m \<and> m < 0)"
proof (cases maxFrames)
  case None
  then show ?thesis by (simp add: whiteNoise_frames)
next
  case (Some m)
  have "nat \<lceil>m\<rceil> = 0 \<longleftrightarrow> m \<le> 0"
    by (simp add: ceiling_le_iff)
  then show ?thesis
    using Some by (auto simp: whiteNoise_frames)
qed

lemma topAndBottom_ok: "animation_ok (topAndBottom dev)"
  by (simp add: animation_ok_def animation_header_ok_def topAndBottom_def Let_def tokens_5_plain)

lemma length_topAndBottom2Frames: "length (topAndBottom2Frames n ids) = n"
  by (induction n arbitrary: ids) (simp_all add: Let_def)

lemma topAndBottom2_ok: "animation_ok topAndBottom2"
proof -
  have "length (topAndBottom2Frames 32 [88 .. 119]) = 32"
    by (rule length_topAndBottom2Frames)
  then have "topAndBottom2Frames 32 [88 .. 119] \<noteq> []"
    by (metis length_0_conv zero_neq_numeral)
  then show ?thesis
    by (simp add: animation_ok_def animation_header_ok_def topAndBottom2_def tokens_5_interp)
qed

lemma escapeTest_ok: "animation_ok (escapeTest rnd)"
  by (simp add: animation_ok_def animation_header_ok_def escapeTest_def tokens_1)

lemma bluewipe_ok: "animation_ok bluewipe"
proof -
  have "length (map bluewipeUp [- 1 .. 51] @ map bluewipeDown (rev [- 1 .. 52])) = 107"
    by simp
  then have "map bluewipeUp [- 1 .. 51] @ map bluewipeDown (rev [- 1 .. 52]) \<noteq> []"
    by (metis length_0_conv zero_neq_numeral)
  then show ?thesis
    by (simp add: animation_ok_def animation_header_ok_def bluewipe_def tokens_3)
qed

lemma multiColorBleed_nonempty:
  assumes "cvs \<noteq> []"
  shows "\<exists>items. multiColorBleed x f cvs = Some items \<and> items \<noteq> []"
proof -
  obtain items where items: "multiColorBleed x f cvs = Some items"
    and len: "length items = length cvs * (if 2 \<le> x then nat \<lfloor>x\<rfloor> else 2)"
    using multiColorBleed_any [of x f cvs] by blast
  have "0 < (if 2 \<le> x then nat \<lfloor>x\<rfloor> else 2)"
    by (auto simp: zero_less_nat_eq)
  moreover have "0 < length cvs" using assms by simp
  ultimately have "0 < length items"
    unfolding len by (rule mult_pos_pos [rotated])
  then show ?thesis using items by auto
qed

lemma colorPulseGenerator_ok:
  "args \<noteq> [] \<Longrightarrow> \<exists>a. colorPulseGenerator n args = Some a \<and> animation_ok a"
  using multiColorBleed_nonempty [of "map to_color args" n None]
  by (auto simp: colorPulseGenerator_def animation_ok_def animation_header_ok_def tokens_3)

lemma colorBreatheGenerator_ok:
  "args \<noteq> [] \<Longrightarrow> \<exists>a. colorBreatheGenerator n args = Some a \<and> animation_ok a"
  using multiColorBleed_nonempty [of "map to_color args" "(60 / n * 100 / 3) / 2" "Some sineInterpolate"]
  by (auto simp: colorBreatheGenerator_def animation_ok_def animation_header_ok_def tokens_3 Let_def)

lemma macSleepBreath_ok: "\<exists>a. macSleepBreath hiColor loColor = Some a \<and> animation_ok a"
  unfolding macSleepBreath_def Let_def by (rule colorBreatheGenerator_ok) simp

lemma blueGreenBreath_ok: "\<exists>a. blueGreenBreath = Some a \<and> animation_ok a"
  unfolding blueGreenBreath_def by (rule colorBreatheGenerator_ok) simp

lemma redPulse_ok: "\<exists>a. redPulse = Some a \<and> animation_ok a"
  unfolding redPulse_def by (rule colorPulseGenerator_ok) simp

lemma linearPulse_ok: "\<exists>a. linearPulse hiColor loColor = Some a \<and> animation_ok a"
  unfolding linearPulse_def Let_def by (rule colorPulseGenerator_ok) simp

lemma blueYellowPulse_ok: "\<exists>a. blueYellowPulse = Some a \<and> animation_ok a"
  unfolding blueYellowPulse_def by (rule colorPulseGenerator_ok) simp

lemma rgbPulse_ok: "\<exists>a. rgbPulse = Some a \<and> animation_ok a"
  unfolding rgbPulse_def by (rule colorPulseGenerator_ok) simp

lemma rgbZebraPulse_ok: "\<exists>a. rgbZebraPulse = Some a \<and> animation_ok a"
  unfolding rgbZebraPulse_def by (rule colorPulseGenerator_ok) simp

lemma verticalPulseWithTracers_ok:
  "\<exists>a. verticalPulseWithTracers stepsPerColor colors = Some a \<and> animation_ok a"
  using verticalPulseFrames_sorted [of stepsPerColor colors]
  by (auto simp: verticalPulseWithTracers_def animation_ok_def animation_header_ok_def tokens_5)

lemma baseTopFrames_length:
  "length tops \<le> length bots \<Longrightarrow>
   \<exists>fs. baseTopFrames tops bots = Some fs \<and> length fs = length tops"
proof (induction tops bots rule: baseTopFrames.induct)
  case (1 botColors)
  show ?case by simp
next
  case (2 topColor topColors)
  then show ?case by simp
next
  case (3 topColor topColors botColor botColors)
  then obtain fs where "baseTopFrames topColors botColors = Some fs" "length fs = length topColors"
    by auto
  then show ?case by simp
qed

lemma spinFrames_length:
  "length tops \<le> length bots \<Longrightarrow>
   \<exists>fs. spinFrames tops bots ids = Some fs \<and> length fs = length tops"
proof (induction tops bots ids rule: spinFrames.induct)
  case (1 botColors baseIds)
  show ?case by simp
next
  case (2 topColor topColors baseIds)
  then show ?case by simp
next
  case (3 topColor topColors botColor botColors baseIds)
  have "length topColors \<le> length botColors"
    using "3.prems" by simp
  then obtain fs where "spinFrames topColors botColors (rotate_right baseIds) = Some fs"
    "length fs = length topColors"
    using "3.IH" [OF refl] by auto
  then show ?case by (simp add: Let_def)
qed

lemma two_bleeds:
  assumes "length cvs = length cvs'" and "cvs \<noteq> []"
  obtains tops bots where "multiColorBleed x f cvs = Some tops" and "multiColorBleed x f cvs' = Some bots"
    and "length tops = length bots" and "tops \<noteq> []"
proof -
  obtain tops where t: "multiColorBleed x f cvs = Some tops"
    and lt: "length tops = length cvs * (if 2 \<le> x then nat \<lfloor>x\<rfloor> else 2)"
    using multiColorBleed_any [of x f cvs] by blast
  obtain bots where b: "multiColorBleed x f cvs' = Some bots"
    and lb: "length bots = length cvs' * (if 2 \<le> x then nat \<lfloor>x\<rfloor> else 2)"
    using multiColorBleed_any [of x f cvs'] by blast
  obtain tops' where "multiColorBleed x f cvs = Some tops'" "tops' \<noteq> []"
    using multiColorBleed_nonempty [OF assms(2), of x f] by blast
  then have "tops \<noteq> []" using t by simp
  moreover have "length tops = length bots"
    using lt lb assms(1) by simp
  ultimately show thesis
    using t b that by blast
qed

lemma baseTopBreath_ok: "\<exists>a. baseTopBreath color1 color2 = Some a \<and> animation_ok a"
proof -
  define c1 where "c1 = (case color1 of None \<Rightarrow> (0, 255, 0) | Some c \<Rightarrow> c)"
  define c2 where "c2 = (case color2 of None \<Rightarrow> (0, 0, 255) | Some c \<Rightarrow> c)"
  define x :: real where "x = (5 * 100 / 3) / 2"
  obtain tops bots where t: "multiColorBleed x (Some sineInterpolate) (map to_color [c1, c2]) = Some tops"
    and b: "multiColorBleed x (Some sineInterpolate) (map to_color [c2, c1]) = Some bots"
    and len: "length tops = length bots" and ne: "tops \<noteq> []"
    by (rule two_bleeds [of "map to_color [c1, c2]" "map to_color [c2, c1]" x "Some sineInterpolate"]) simp_all
  obtain fs where fs: "baseTopFrames tops bots = Some fs" and lfs: "length fs = length tops"
    using baseTopFrames_length [of tops bots] len by auto
  have "fs \<noteq> []" using lfs ne by auto
  moreover have "baseTopBreath color1 color2 =
      Some \<lparr>settings = ''framedelay:3, framestretch, loop, replace:all, pfunc:interp'',
            type = ''animation'', frames = fs\<rparr>"
    unfolding baseTopBreath_def c1_def [symmetric] c2_def [symmetric] Let_def x_def [symmetric]
    using t b fs by simp
  ultimately show ?thesis
    by (simp add: animation_ok_def animation_header_ok_def tokens_3)
qed

lemma blueGreenBaseTopBreathSpin_ok: "\<exists>a. blueGreenBaseTopBreathSpin = Some a \<and> animation_ok a"
proof -
  define x :: real where "x = (6.4 * 100 / 10) / 2"
  obtain tops bots where
    t: "multiColorBleed x (Some sineInterpolate) (map to_color [(0, 255, 0), (0, 0, 255)]) = Some tops"
    and b: "multiColorBleed x (Some sineInterpolate) (map to_color [(0, 0, 255), (0, 255, 0)]) = Some bots"
    and len: "length tops = length bots" and ne: "tops \<noteq> []"
    by (rule two_bleeds [of "map to_color [(0, 255, 0), (0, 0, 255)]"
          "map to_color [(0, 0, 255), (0, 255, 0)]" x "Some sineInterpolate"]) simp_all
  obtain fs where fs: "spinFrames tops bots [88 .. 119] = Some fs" and lfs: "length fs = length tops"
    using spinFrames_length [of tops bots "[88 .. 119]"] len by auto
  have "fs \<noteq> []" using lfs ne by auto
  then have ok: "animation_ok \<lparr>settings = ''framedelay:10, framestretch, loop, replace:all, pfunc:interp'',
            type = ''animation'', frames = fs\<rparr>"
    by (simp add: animation_ok_def animation_header_ok_def tokens_10)
  have "blueGreenBaseTopBreathSpin =
      Some \<lparr>settings = ''framedelay:10, framestretch, loop, replace:all, pfunc:interp'',
            type = ''animation'', frames = fs\<rparr>"
    unfolding blueGreenBaseTopBreathSpin_def Let_def x_def [symmetric]
    using t b fs by simp
  with ok show ?thesis
    by blast
qed

lemma columnPixel_Some:
  "0 \<le> k \<Longrightarrow> k < int (length xs) \<Longrightarrow> columnPixel col (item_at xs k) \<noteq> None"
  by (simp add: columnPixel_def item_at_def)

lemma createKitt2000Frame_Some:
  assumes "bleedColors \<noteq> []" and "length R = length bleedColors"
  shows "\<exists>fr. createKitt2000Frame bg bleedColors R i = Some fr"
proof -
  have n: "0 < int (length R)" "0 < int (length bleedColors)"
    using assms by simp_all
  have r0: "columnPixel col (item_at R 0) \<noteq> None" for col
    using n by (intro columnPixel_Some) simp_all
  have b0: "columnPixel col (item_at bleedColors 0) \<noteq> None" for col
    using n by (intro columnPixel_Some) simp_all
  have rk: "0 \<le> k \<Longrightarrow> k < int (length R) \<Longrightarrow> columnPixel col (item_at R k) \<noteq> None" for col k
    by (rule columnPixel_Some)
  define xs where "xs =
     [Some (colorPixel None (Some (Str ''-2%'')) bg None)] @
     (if 0 \<le> int (length R) - int i \<and> int (length R) - int i < int (length R)
      then [columnPixel (Str ''0%'') (item_at R (int (length R) - int i))]
      else if int (length R) - int i < 0
      then [Some (colorPixel None (Some (Str ''0%'')) bg None),
            columnPixel (percent (kittColumns ! nat (int i - int (length R)))) (item_at R 0)]
      else []) @
     [columnPixel (percent (kittColumns ! i)) (item_at bleedColors 0)] @
     (if 0 \<le> int (length kittColumns) - int i + 1 \<and> int (length kittColumns) - int i + 1 < int (length R)
      then [columnPixel (Str ''100%'') (item_at R (int (length kittColumns) - int i + 1))]
      else if int i + int (length R) < int (length kittColumns)
      then [columnPixel (percent (kittColumns ! nat (int i + int (length R)))) (item_at R 0),
            Some (colorPixel None (Some (Str ''100%'')) bg None)]
      else []) @
     [Some (colorPixel None (Some (Str ''102%'')) bg None)]"
  have eq: "createKitt2000Frame bg bleedColors R i = those xs"
    unfolding createKitt2000Frame_def Let_def xs_def ..
  have "x \<noteq> None" if "x \<in> set xs" for x
    using that r0 b0 rk unfolding xs_def by (auto split: if_splits)
  then obtain fr where "those xs = Some fr"
    using those_all_Some [of xs] by blast
  then show ?thesis
    unfolding eq by blast
qed

lemma kitt2000_ok: "\<exists>a. kitt2000 hiColor bgColor width = Some a \<and> animation_ok a"
proof -
  define hi where "hi = (case hiColor of None \<Rightarrow> (255, 0, 0) | Some c \<Rightarrow> c)"
  define bg where "bg = (case bgColor of None \<Rightarrow> (0, 0, 0) | Some c \<Rightarrow> c)"
  define w :: real where "w = (case width of None \<Rightarrow> 5 | Some v \<Rightarrow> v)"
  obtain allColors where ac: "bleed_items (colorBleed (to_color hi) (to_color bg) (Some w) None None) = Some allColors"
    and len: "length allColors = (if 2 \<le> w then nat \<lfloor>w\<rfloor> else 2) + 1"
    using bleed_items_colorBleed [of "to_color hi" "to_color bg" w None] by blast
  have "0 < (if 2 \<le> w then nat \<lfloor>w\<rfloor> else 2)"
    by (auto simp: zero_less_nat_eq)
  then have "0 < length (drop 1 allColors)"
    using len by simp
  then have ne: "drop 1 allColors \<noteq> []"
    by simp
  have "\<exists>fr. createKitt2000Frame bg (drop 1 allColors) (rev (drop 1 allColors)) i = Some fr" for i
    using ne by (rule createKitt2000Frame_Some) simp
  then obtain fs where
    fs: "those (map (createKitt2000Frame bg (drop 1 allColors) (rev (drop 1 allColors)))
                 ([0 ..< 52] @ rev [2 ..< 51])) = Some fs"
    and lfs: "length fs = length ([0 ..< 52] @ rev [2 ..< 51])"
    using those_map_Some [of "[0 ..< 52] @ rev [2 ..< 51]"
            "createKitt2000Frame bg (drop 1 allColors) (rev (drop 1 allColors))"]
    by blast
  have "length fs = 101"
    using lfs by simp
  then have "fs \<noteq> []"
    by (metis length_0_conv zero_neq_numeral)
  then have ok: "animation_ok \<lparr>settings = ''framedelay:2, framestretch, loop, replace:all, pfunc:interp'',
            type = ''animation'', frames = map (join '','') fs\<rparr>"
    by (simp add: animation_ok_def animation_header_ok_def tokens_2)
  have "kitt2000 hiColor bgColor width =
      Some \<lparr>settings = ''framedelay:2, framestretch, loop, replace:all, pfunc:interp'',
            type = ''animation'', frames = map (join '','') fs\<rparr>"
    unfolding kitt2000_def hi_def [symmetric] bg_def [symmetric] w_def [symmetric] Let_def
    using ac fs by simp
  with ok show ?thesis
    by blast
qed

lemma those_Some_map: "those xs = Some ys \<Longrightarrow> xs = map Some ys"
  by (induction xs arbitrary: ys) (auto split: option.splits)

lemma keyGroupCycler_ok: "\<exists>a. keyGroupCycler dev stepsPerColor colors = Some a \<and> animation_ok a"
proof -
  define x :: real where "x = (case stepsPerColor of None \<Rightarrow> 16 | Some n \<Rightarrow> n)"
  define cvs where "cvs = defaultColors colors"
  define m where "m = (if 2 \<le> x then nat \<lfloor>x\<rfloor> else 2)"
  define L where "L = length cvs * m"
  define bleedOf where
    "bleedOf = (\<lambda>k. multiColorBleed x (Some sineInterpolate) (map to_color (rotate k cvs)))"
  have c: "2 \<le> length cvs"
    unfolding cvs_def by (rule length_defaultColors)
  have "0 < m" by (auto simp: m_def zero_less_nat_eq)
  moreover have "0 < length cvs" using c by linarith
  ultimately have Lpos: "0 < L"
    unfolding L_def by (rule mult_pos_pos [rotated])
  have each: "\<exists>items. bleedOf k = Some items \<and> length items = L" for k
    using multiColorBleed_any [of x "Some sineInterpolate" "map to_color (rotate k cvs)"]
    unfolding bleedOf_def L_def m_def by auto
  then obtain kgf where kgf: "those (map bleedOf [0 ..< length KEY_GROUPS]) = Some kgf"
    and lkgf: "length kgf = length [0 ..< length KEY_GROUPS]"
    using those_map_Some [of "[0 ..< length KEY_GROUPS]" bleedOf] by blast
  have m2: "map bleedOf [0 ..< length KEY_GROUPS] = map Some kgf"
    using kgf by (rule those_Some_map)
  have lenall: "length g = L" if "g \<in> set kgf" for g
  proof -
    have "Some g \<in> set (map bleedOf [0 ..< length KEY_GROUPS])"
      unfolding m2 using that by simp
    then obtain k where "bleedOf k = Some g" by auto
    then show ?thesis using each [of k] by simp
  qed
  have kne: "kgf \<noteq> []"
    using lkgf by (auto simp: KEY_GROUPS_def)
  then have fc: "(case kgf of [] \<Rightarrow> 0 | _ \<Rightarrow> length (last kgf)) = L"
    using lenall [of "last kgf"] by (cases kgf) auto
  define groups where "groups = zip (map snd KEY_GROUPS) kgf"
  have grp: "\<exists>y. groupPixels dev i g = Some y" if "g \<in> set groups" and "i < L" for g i
  proof -
    obtain keys gf where g: "g = (keys, gf)" by (cases g)
    then have "gf \<in> set kgf"
      using that(1) unfolding groups_def by (auto dest: set_zip_rightD)
    then have "length gf = L" by (rule lenall)
    then show ?thesis
      using that(2) by (simp add: g groupPixels_def item_at_def)
  qed
  have frame: "\<exists>y. cyclerFrame dev groups i = Some y" if "i \<in> set [0 ..< L]" for i
  proof -
    have "i < L" using that by simp
    then obtain parts where "those (map (groupPixels dev i) groups) = Some parts"
      using those_map_Some [of groups "groupPixels dev i"] grp by blast
    then show ?thesis by (simp add: cyclerFrame_def)
  qed
  obtain fs where fs: "those (map (cyclerFrame dev groups) [0 ..< L]) = Some fs"
    and lfs: "length fs = length [0 ..< L]"
    using those_map_Some [of "[0 ..< L]" "cyclerFrame dev groups"] frame by blast
  have "fs \<noteq> []"
    using lfs Lpos by auto
  then have ok: "animation_ok \<lparr>settings = ''framedelay:10, framestretch, loop, replace:all'',
            type = ''animation'', frames = fs\<rparr>"
    by (simp add: animation_ok_def animation_header_ok_def tokens_10_plain)
  have "keyGroupCycler dev stepsPerColor colors =
      Some \<lparr>settings = ''framedelay:10, framestretch, loop, replace:all'',
            type = ''animation'', frames = fs\<rparr>"
    unfolding keyGroupCycler_def x_def [symmetric] cvs_def [symmetric] Let_def
      bleedOf_def [symmetric] kgf option.case groups_def [symmetric] fc fs ..
  with ok show ?thesis
    by blast
qed

section \<open>Properties of the registry and of the \<open>all\<close> pseudo-generator\<close>

lemma whiteNoise_default_ok: "animation_ok (whiteNoise rnd None)"
  using whiteNoise_empty [of rnd None] whiteNoise_header [of rnd None]
  by (simp add: animation_ok_def)

lemma generators_succeed:
  "list_all (\<lambda>(g, gen). \<forall>r. \<exists>a n. gen dev r = (Some a, n) \<and> animation_ok a) generators"
  unfolding generators_def
  by (simp add: dodgyPixel_ok kitt2000_ok bluewipe_ok macSleepBreath_ok blueGreenBreath_ok
      blueGreenBaseTopBreathSpin_ok keyGroupCycler_ok verticalPulseWithTracers_ok baseTopBreath_ok
      redPulse_ok linearPulse_ok blueYellowPulse_ok rgbPulse_ok rgbZebraPulse_ok
      whiteNoise_default_ok topAndBottom_ok topAndBottom2_ok escapeTest_ok)

lemma generators_names:
  "map fst generators =
     [''dodgyPixel'', ''kitt2000'', ''bluewipe'', ''macSleepBreath'', ''blueGreenBreath'',
      ''blueGreenBaseTopBreathSpin'', ''keyGroupCycler'', ''verticalPulseWithTracers'',
      ''baseTopBreath'', ''redPulse'', ''linearPulse'', ''blueYellowPulse'', ''rgbPulse'',
      ''rgbZebraPulse'', ''whiteNoise'', ''topAndBottom'', ''topAndBottom2'', ''escapeTest'']"
  by (simp add: generators_def)

lemma generators_distinct: "distinct (map fst generators)"
  unfolding generators_names by simp

lemma generators_not_excluded: "list_all (\<lambda>g. CHR ''!'' \<notin> set g) (map fst generators)"
  unfolding generators_names by simp

lemma dodgyPixel_v1_ok: "animation_ok (dodgyPixel_v1 dev rnd)"
  by (simp add: animation_ok_def animation_header_ok_def dodgyPixel_v1_def Let_def tokens_1)

lemma topAndBottom_v1_ok: "animation_ok (topAndBottom_v1 dev)"
  by (simp add: animation_ok_def animation_header_ok_def topAndBottom_v1_def Let_def tokens_1)

lemma colorPulseGenerator_v1_ok:
  "args \<noteq> [] \<Longrightarrow> \<exists>a. colorPulseGenerator_v1 n args = Some a \<and> animation_ok a"
  using multiColorBleed_nonempty [of "map to_color args" n None]
  by (auto simp: colorPulseGenerator_v1_def multiColorBleed_v1_eq animation_ok_def
      animation_header_ok_def tokens_3)

lemma kitt2000_v1_ok: "\<exists>a. kitt2000_v1 = Some a \<and> animation_ok a"
proof -
  have i: "js_index (bleedLoop linearInterpolate c1 c2 5 0 []) (5 - 1) =
            Some (bleedColor linearInterpolate 4 5 c1 c2)" for c1 c2
  proof -
    have "[0 ..< nat (\<lfloor>5::real\<rfloor> + 1)] = [0, 1, 2, 3, 4, 5]"
      by (simp add: upt_conv_Cons)
    then have l: "bleedLoop linearInterpolate c1 c2 5 0 [] =
        map (\<lambda>k. bleedColor linearInterpolate k 5 c1 c2) [0, 1, 2, 3, 4, 5]"
      by (simp add: bleedLoop_map)
    show ?thesis
      unfolding l using js_index_nat [of 4 "map (\<lambda>k. bleedColor linearInterpolate k 5 c1 c2) [0, 1, 2, 3, 4, 5]"]
      by simp
  qed
  have c: "colorBleed_v1 c1 c2 (Some 5) (Some (5 - 1)) = OneColor (bleedColor linearInterpolate 4 5 c1 c2)"
    for c1 c2
    unfolding colorBleed_v1_eq colorBleed_def using i [of c1 c2] by simp
  have "length (map (kittFrame_v1 x) [- 1 .. 51] @ map (kittFrame_v1 x) (rev [- 1 .. 52])) = 107" for x
    by simp
  then have ne: "map (kittFrame_v1 x) [- 1 .. 51] @ map (kittFrame_v1 x) (rev [- 1 .. 52]) \<noteq> []" for x
    by (metis length_0_conv zero_neq_numeral)
  show ?thesis
    unfolding kitt2000_v1_def c
    using ne by (simp add: animation_ok_def animation_header_ok_def tokens_3)
qed

lemma generators_v1_succeed:
  "list_all (\<lambda>(g, gen). \<forall>r. \<exists>a n. gen dev r = (Some a, n) \<and> animation_ok a) generators_v1"
  unfolding generators_v1_def
  by (simp add: dodgyPixel_v1_ok kitt2000_v1_ok bluewipe_ok colorPulseGenerator_v1_ok
      whiteNoise_default_ok topAndBottom_v1_ok escapeTest_ok)

lemma generators_v1_names:
  "map fst generators_v1 =
     [''dodgyPixel'', ''kitt2000'', ''bluewipe'', ''redPulse'', ''blueYellowPulse'', ''rgbPulse'',
      ''rgbZebraPulse'', ''whiteNoise'', ''topAndBottom'', ''escapeTest'']"
  by (simp add: generators_v1_def)

lemma generators_v1_distinct: "distinct (map fst generators_v1)"
  unfolding generators_v1_names by simp

lemma generators_v1_not_excluded: "list_all (\<lambda>g. CHR ''!'' \<notin> set g) (map fst generators_v1)"
  unfolding generators_v1_names by simp

lemma runAll_succeeds:
  "list_all (\<lambda>(g, gen). \<forall>r. \<exists>a n. gen dev r = (Some a, n) \<and> P a) gs \<Longrightarrow>
   \<exists>result. runAll gs dev rnd m = Some result"
proof (induction gs arbitrary: rnd m)
  case Nil
  show ?case by simp
next
  case (Cons p gs)
  obtain g gen where p: "p = (g, gen)" by (cases p)
  have "\<forall>r. \<exists>a n. gen dev r = (Some a, n) \<and> P a"
    using Cons.prems p by simp
  then obtain a n where a: "gen dev rnd = (Some a, n)"
    by blast
  have rest: "list_all (\<lambda>(g, gen). \<forall>r. \<exists>a n. gen dev r = (Some a, n) \<and> P a) gs"
    using Cons.prems by simp
  show ?case
    using Cons.IH [OF rest] a by (simp add: p)
qed

lemma runAll_entries:
  "runAll gs dev rnd m = Some result \<Longrightarrow> distinct (map fst gs) \<Longrightarrow>
   (\<forall>g. if g \<in> set (map fst gs) \<and> CHR ''!'' \<notin> set g
        then (\<exists>gen r a n. (g, gen) \<in> set gs \<and> gen dev r = (Some a, n) \<and> result g = Some a)
        else result g = m g)"
proof (induction gs arbitrary: rnd m)
  case Nil
  then show ?case by simp
next
  case (Cons p gs)
  obtain g gen where p: "p = (g, gen)" by (cases p)
  have d: "distinct (map fst gs)" and notin: "g \<notin> set (map fst gs)"
    using Cons.prems(2) p by simp_all
  show ?case
  proof (cases "CHR ''!'' \<notin> set g")
    case False
    then have "runAll gs dev rnd m = Some result"
      using Cons.prems(1) p by simp
    note ih = Cons.IH [OF this d]
    show ?thesis
    proof (intro allI)
      fix g'
      from ih have i: "if g' \<in> set (map fst gs) \<and> CHR ''!'' \<notin> set g'
            then (\<exists>gen r a n. (g', gen) \<in> set gs \<and> gen dev r = (Some a, n) \<and> result g' = Some a)
            else result g' = m g'"
        by blast
      show "if g' \<in> set (map fst (p # gs)) \<and> CHR ''!'' \<notin> set g'
            then (\<exists>gen r a n. (g', gen) \<in> set (p # gs) \<and> gen dev r = (Some a, n) \<and> result g' = Some a)
            else result g' = m g'"
      proof (cases "g' = g")
        case True
        then show ?thesis
          using i False notin by simp
      next
        case neq: False
        show ?thesis
        proof (cases "g' \<in> set (map fst gs) \<and> CHR ''!'' \<notin> set g'")
          case True
          then obtain gen' r a n where "(g', gen') \<in> set gs" "gen' dev r = (Some a, n)" "result g' = Some a"
            using i by auto
          then have "\<exists>gen r a n. (g', gen) \<in> set (p # gs) \<and> gen dev r = (Some a, n) \<and> result g' = Some a"
            by auto
          then show ?thesis
            using True by simp
        next
          case False
          then have "result g' = m g'" using i by simp
          then show ?thesis
            using False neq p by auto
        qed
      qed
    qed
  next
    case True
    obtain a n where a: "gen dev rnd = (Some a, n)"
      and rest: "runAll gs dev (\<lambda>k. rnd (k + n)) (m(g \<mapsto> a)) = Some result"
      using Cons.prems(1) p True by (auto split: prod.splits option.splits)
    note ih = Cons.IH [OF rest d]
    have here: "result g = Some a"
      using ih notin by (auto split: if_splits)
    show ?thesis
    proof (intro allI)
      fix g'
      show "if g' \<in> set (map fst (p # gs)) \<and> CHR ''!'' \<notin> set g'
            then (\<exists>gen r a n. (g', gen) \<in> set (p # gs) \<and> gen dev r = (Some a, n) \<and> result g' = Some a)
            else result g' = m g'"
      proof (cases "g' = g")
        case True
        then show ?thesis
          using \<open>CHR ''!'' \<notin> set g\<close> a here p by auto
      next
        case False
        from ih have "if g' \<in> set (map fst gs) \<and> CHR ''!'' \<notin> set g'
            then (\<exists>gen r a n. (g', gen) \<in> set gs \<and> gen dev r = (Some a, n) \<and> result g' = Some a)
            else result g' = (m(g \<mapsto> a)) g'"
          by blast
        then show ?thesis
          using False p by (auto split: if_splits)
      qed
    qed
  qed
qed

lemma runAll_registry:
  assumes ok: "list_all (\<lambda>(g, gen). \<forall>r. \<exists>a n. gen dev r = (Some a, n) \<and> animation_ok a) registry"
    and gs_distinct: "distinct (map fst registry)"
    and gs_not_excluded: "list_all (\<lambda>g. CHR ''!'' \<notin> set g) (map fst registry)"
  shows
  "\<exists>result. runAll registry dev rnd animOrig = Some result
     \<and> list_all (\<lambda>g. CHR ''!'' \<notin> set g \<and> (\<exists>a. result g = Some a \<and> frames a \<noteq> []))
          (map fst registry)
     \<and> (\<forall>g. g \<notin> set (map fst registry) \<longrightarrow> result g = animOrig g)"
proof -
  obtain result where r: "runAll registry dev rnd animOrig = Some result"
    using runAll_succeeds [OF ok] by blast
  note e = runAll_entries [OF r gs_distinct]
  have other: "\<forall>g. g \<notin> set (map fst registry) \<longrightarrow> result g = animOrig g"
  proof (intro allI impI)
    fix g
    assume n: "g \<notin> set (map fst registry)"
    from e have "if g \<in> set (map fst registry) \<and> CHR ''!'' \<notin> set g
        then (\<exists>gen r a n. (g, gen) \<in> set registry \<and> gen dev r = (Some a, n) \<and> result g = Some a)
        else result g = animOrig g"
      by blast
    then show "result g = animOrig g"
      using n by simp
  qed
  have "CHR ''!'' \<notin> set g \<and> (\<exists>a. result g = Some a \<and> frames a \<noteq> [])"
    if g: "g \<in> set (map fst registry)" for g
  proof -
    have x: "CHR ''!'' \<notin> set g"
      using gs_not_excluded g unfolding list_all_iff by blast
    from e have "if g \<in> set (map fst registry) \<and> CHR ''!'' \<notin> set g
        then (\<exists>gen r a n. (g, gen) \<in> set registry \<and> gen dev r = (Some a, n) \<and> result g = Some a)
        else result g = animOrig g"
      by blast
    then have "\<exists>gen r a n. (g, gen) \<in> set registry \<and> gen dev r = (Some a, n) \<and> result g = Some a"
      using x g by simp
    then obtain gen r a n where mem: "(g, gen) \<in> set registry"
      and run: "gen dev r = (Some a, n)" and res: "result g = Some a"
      by blast
    have "\<exists>a n. gen dev r = (Some a, n) \<and> animation_ok a"
      using ok mem by (auto simp: list_all_iff)
    then have "frames a \<noteq> []"
      using run by (auto simp: animation_ok_def)
    then show ?thesis using x res by simp
  qed
  then have "list_all (\<lambda>g. CHR ''!'' \<notin> set g \<and> (\<exists>a. result g = Some a \<and> frames a \<noteq> []))
          (map fst registry)"
    unfolding list_all_iff by blast
  then show ?thesis
    using r other by blast
qed

text \<open>
  Claim C6. Invoked as \<open>all\<close>, \<open>main\<close> calls every generator of the registry whose name
  has no \<open>!\<close> and stores the animation under the name of the generator: for the registry
  of the script (18 names) and for the registry of its first version (10 names) the run
  returns, every name (none has a \<open>!\<close>, no two are equal) has an entry with at least one
  frame, and every other entry of the configuration is as it was.
  For any registry with distinct names, an entry of the result is the animation its
  generator returned when the name is in the registry and has no \<open>!\<close>, and is the entry of
  the configuration otherwise.
\<close>

theorem all_generators_entries:
  "(\<exists>result. runAll generators dev rnd animOrig = Some result
       \<and> list_all (\<lambda>g. CHR ''!'' \<notin> set g \<and> (\<exists>a. result g = Some a \<and> frames a \<noteq> []))
            (map fst generators)
       \<and> (\<forall>g. g \<notin> set (map fst generators) \<longrightarrow> result g = animOrig g))
   \<and> distinct (map fst generators)
   \<and> (\<exists>result. runAll generators_v1 dev rnd animOrig = Some result
       \<and> list_all (\<lambda>g. CHR ''!'' \<notin> set g \<and> (\<exists>a. result g = Some a \<and> frames a \<noteq> []))
            (map fst generators_v1)
       \<and> (\<forall>g. g \<notin> set (map fst generators_v1) \<longrightarrow> result g = animOrig g))
   \<and> distinct (map fst generators_v1)
   \<and> (distinct (map fst gs) \<longrightarrow> runAll gs dev rnd animOrig = Some res \<longrightarrow>
        (\<forall>g. if g \<in> set (map fst gs) \<and> CHR ''!'' \<notin> set g
             then (\<exists>gen r a n. (g, gen) \<in> set gs \<and> gen dev r = (Some a, n) \<and> res g = Some a)
             else res g = animOrig g))"
  using runAll_registry [OF generators_succeed generators_distinct generators_not_excluded, of dev rnd animOrig]
    runAll_registry [OF generators_v1_succeed generators_v1_distinct generators_v1_not_excluded, of dev rnd animOrig]
    generators_distinct generators_v1_distinct
    runAll_entries [of gs dev rnd animOrig res]
  by blast

theorem all_generators_entries_witness:
  "distinct (map fst [(''glow'', \<lambda>dev rnd. (Some \<lparr>settings = ''loop, replace:all'', type = ''animation'', frames = [''P[1](0,0,0)'']\<rparr>, 0)),
                      (''!helper'', \<lambda>dev rnd. (Some \<lparr>settings = ''loop, replace:all'', type = ''animation'', frames = [''P[2](0,0,0)'']\<rparr>, 0))])
   \<and> runAll [(''glow'', \<lambda>dev rnd. (Some \<lparr>settings = ''loop, replace:all'', type = ''animation'', frames = [''P[1](0,0,0)'']\<rparr>, 0)),
              (''!helper'', \<lambda>dev rnd. (Some \<lparr>settings = ''loop, replace:all'', type = ''animation'', frames = [''P[2](0,0,0)'']\<rparr>, 0))]
         \<lparr>maxRow = 0, maxCol = 0, blankLeds = [], keyedLeds = [], ledIdByScanCode = (\<lambda>c. None)\<rparr>
         (\<lambda>k. 0) Map.empty
       = Some [''glow'' \<mapsto> \<lparr>settings = ''loop, replace:all'', type = ''animation'', frames = [''P[1](0,0,0)'']\<rparr>]
   \<and> [''glow'' \<mapsto> \<lparr>settings = ''loop, replace:all'', type = ''animation'', frames = [''P[1](0,0,0)'']\<rparr>] ''!helper''
       = None
   \<and> (\<exists>result. runAll generators
          \<lparr>maxRow = 0, maxCol = 0, blankLeds = [], keyedLeds = [], ledIdByScanCode = (\<lambda>c. None)\<rparr>
          (\<lambda>k. 0) Map.empty = Some result
        \<and> list_all (\<lambda>g. CHR ''!'' \<notin> set g \<and> (\<exists>a. result g = Some a \<and> frames a \<noteq> []))
            (map fst generators))"
  using all_generators_entries
    [of "\<lparr>maxRow = 0, maxCol = 0, blankLeds = [], keyedLeds = [], ledIdByScanCode = (\<lambda>c. None)\<rparr>"
        "\<lambda>k. 0" Map.empty
        "[(''glow'', \<lambda>dev rnd. (Some \<lparr>settings = ''loop, replace:all'', type = ''animation'', frames = [''P[1](0,0,0)'']\<rparr>, 0)),
          (''!helper'', \<lambda>dev rnd. (Some \<lparr>settings = ''loop, replace:all'', type = ''animation'', frames = [''P[2](0,0,0)'']\<rparr>, 0))]"
        "[''glow'' \<mapsto> \<lparr>settings = ''loop, replace:all'', type = ''animation'', frames = [''P[1](0,0,0)'']\<rparr>]"]
  by auto

text \<open>
  \<open>whiteNoise(-1)\<close>: \<open>-1\<close> is not falsy, so it is kept, the loop \<open>f < -1\<close> never runs and the
  frames array is empty.
\<close>

theorem whiteNoise_negative_counterexample:
  "frames (whiteNoise (\<lambda>k. 0) (Some (- 1))) = [] \<and> \<not> animation_ok (whiteNoise (\<lambda>k. 0) (Some (- 1)))"
  by (simp add: whiteNoise_frames animation_ok_def)

text \<open>
  Claim C10, as amended. Every generator of the registry, in the script and in its first
  version, for all its parameters, all device geometries and all random values, returns an
  animation object whose type is
  \<open>animation\<close> and whose settings have the tokens \<open>loop\<close> and \<open>replace:all\<close>; its frames
  are a non-empty array of strings, except for \<open>whiteNoise\<close>, whose frames are empty exactly
  when \<open>maxFrames\<close> is negative.
\<close>

theorem generators_return_animations:
  "animation_ok (dodgyPixel dev rnd hiColor bgColor)
   \<and> (\<exists>a. kitt2000 hiColor bgColor width = Some a \<and> animation_ok a)
   \<and> animation_ok bluewipe
   \<and> (\<exists>a. macSleepBreath hiColor loColor = Some a \<and> animation_ok a)
   \<and> (\<exists>a. blueGreenBreath = Some a \<and> animation_ok a)
   \<and> (\<exists>a. blueGreenBaseTopBreathSpin = Some a \<and> animation_ok a)
   \<and> (\<exists>a. keyGroupCycler dev stepsPerColor colors = Some a \<and> animation_ok a)
   \<and> (\<exists>a. verticalPulseWithTracers stepsPerColor colors = Some a \<and> animation_ok a)
   \<and> (\<exists>a. baseTopBreath color1 color2 = Some a \<and> animation_ok a)
   \<and> (\<exists>a. redPulse = Some a \<and> animation_ok a)
   \<and> (\<exists>a. linearPulse hiColor loColor = Some a \<and> animation_ok a)
   \<and> (\<exists>a. blueYellowPulse = Some a \<and> animation_ok a)
   \<and> (\<exists>a. rgbPulse = Some a \<and> animation_ok a)
   \<and> (\<exists>a. rgbZebraPulse = Some a \<and> animation_ok a)
   \<and> animation_header_ok (whiteNoise rnd maxFrames)
   \<and> (frames (whiteNoise rnd maxFrames) = [] \<longleftrightarrow> (\<exists>m. maxFrames = Some m \<and> m < 0))
   \<and> animation_ok (topAndBottom dev)
   \<and> animation_ok topAndBottom2
   \<and> animation_ok (escapeTest rnd)
   \<and> animation_ok (dodgyPixel_v1 dev rnd)
   \<and> (\<exists>a. kitt2000_v1 = Some a \<and> animation_ok a)
   \<and> (\<exists>a. colorPulseGenerator_v1 240 [(255, 25, 0), (0, 0, 0)] = Some a \<and> animation_ok a)
   \<and> (\<exists>a. colorPulseGenerator_v1 240 [(0, 0, 255), (255, 255, 0)] = Some a \<and> animation_ok a)
   \<and> (\<exists>a. colorPulseGenerator_v1 120 [(255, 0, 0), (0, 255, 0), (0, 0, 255)] = Some a
          \<and> animation_ok a)
   \<and> (\<exists>a. colorPulseGenerator_v1 120
            [(255, 0, 0), (255, 255, 255), (0, 255, 0), (255, 255, 255), (0, 0, 255), (255, 255, 255)]
          = Some a \<and> animation_ok a)
   \<and> animation_ok (topAndBottom_v1 dev)"
proof -
  have v1: "\<exists>a. colorPulseGenerator_v1 n (c # cs) = Some a \<and> animation_ok a" for n c cs
    by (rule colorPulseGenerator_v1_ok) simp
  show ?thesis
    by (intro conjI dodgyPixel_ok kitt2000_ok bluewipe_ok macSleepBreath_ok blueGreenBreath_ok
        blueGreenBaseTopBreathSpin_ok keyGroupCycler_ok verticalPulseWithTracers_ok baseTopBreath_ok
        redPulse_ok linearPulse_ok blueYellowPulse_ok rgbPulse_ok rgbZebraPulse_ok
        whiteNoise_header whiteNoise_empty topAndBottom_ok topAndBottom2_ok escapeTest_ok
        dodgyPixel_v1_ok kitt2000_v1_ok v1 topAndBottom_v1_ok)
qed

end
